theory Spec2Isabelle
  imports Main "HOL-Library.AList"
begin

section \<open>Values, documents, errors\<close>

text \<open>
  A Python attribute dictionary and a MongoDB document are both maps from field names to
  scalars. Scalars are modelled as unbounded integers (node ids, the three centre
  coordinates and every other attribute); floating-point attributes are outside the model.
  The store's generated \<open>_id\<close> field is not modelled.
\<close>

type_synonym document = "string \<rightharpoonup> int"

datatype error =
    RuntimeError string
  | AssertionError string
  | KeyError string
  | ValueError
  | BulkWriteError "document list"

section \<open>Regions (daisy.Roi)\<close>

text \<open>
  A region is one half-open interval \<open>(begin, end)\<close> per axis. \<open>roi_contains\<close> is
  daisy's \<open>Roi.contains\<close> on a coordinate: \<open>all(b <= p < e for p, b, e in zip(point,
  begin, end))\<close>; like \<open>zip\<close> it stops at the shortest of the three sequences.
\<close>

type_synonym roi = "(int \<times> int) list"

definition dims :: "roi \<Rightarrow> nat" where
  "dims r = length r"

definition get_begin :: "roi \<Rightarrow> int list" where
  "get_begin r = map fst r"

definition get_end :: "roi \<Rightarrow> int list" where
  "get_end r = map snd r"

fun all_within :: "int list \<Rightarrow> int list \<Rightarrow> int list \<Rightarrow> bool" where
  "all_within (p # ps) (b # bs) (e # es) = (b \<le> p \<and> p < e \<and> all_within ps bs es)"
| "all_within _ _ _ = True"

definition roi_contains :: "roi \<Rightarrow> int list \<Rightarrow> bool" where
  "roi_contains r p = all_within p (get_begin r) (get_end r)"

text \<open>
  daisy's \<open>Roi.intersects\<close>: two regions intersect unless one of them is empty or some
  axis separates them.
\<close>

definition roi_empty :: "roi \<Rightarrow> bool" where
  "roi_empty r = list_ex (\<lambda>(b, e). e \<le> b) r"

definition intersects :: "roi \<Rightarrow> roi \<Rightarrow> bool" where
  "intersects r1 r2 =
     (\<not> roi_empty r1 \<and> \<not> roi_empty r2 \<and>
      \<not> list_ex (\<lambda>((b1, e1), (b2, e2)). e2 \<le> b1 \<or> e1 \<le> b2) (zip r1 r2))"

section \<open>The document store (pymongo)\<close>

text \<open>
  The store is a map from database names to databases, a database a map from collection
  names to collections. Databases and collections come into being with their first index
  or document, as in MongoDB. Every call the program issues to the client is appended to
  \<open>calls\<close>, so that "no store call" is a statement about the state.
\<close>

record index =
  idx_name :: string
  idx_keys :: "string list"
  idx_unique :: bool

record collection =
  docs :: "document list"
  indexes :: "index list"

type_synonym database = "string \<rightharpoonup> collection"

datatype cond = Range int int | In "int list"

type_synonym query = "(string \<times> cond) list"

datatype call =
    Connect
  | Close
  | DropDatabase string
  | ListDatabaseNames
  | CreateIndex string string index
  | Find string string query
  | InsertMany string string "document list" bool

record world =
  dbs :: "string \<rightharpoonup> database"
  calls :: "call list"

definition issue :: "call \<Rightarrow> world \<Rightarrow> world" where
  "issue c w = w\<lparr>calls := calls w @ [c]\<rparr>"

definition empty_collection :: collection where
  "empty_collection = \<lparr>docs = [], indexes = []\<rparr>"

definition get_collection :: "world \<Rightarrow> string \<Rightarrow> string \<Rightarrow> collection" where
  "get_collection w dbn cn =
     (case dbs w dbn of
        None \<Rightarrow> empty_collection
      | Some db \<Rightarrow> (case db cn of None \<Rightarrow> empty_collection | Some c \<Rightarrow> c))"

definition put_collection :: "string \<Rightarrow> string \<Rightarrow> collection \<Rightarrow> world \<Rightarrow> world" where
  "put_collection dbn cn c w =
     w\<lparr>dbs := (dbs w)(dbn \<mapsto> (case dbs w dbn of None \<Rightarrow> Map.empty | Some db \<Rightarrow> db)(cn \<mapsto> c))\<rparr>"

definition drop_database :: "string \<Rightarrow> world \<Rightarrow> world" where
  "drop_database dbn w = issue (DropDatabase dbn) (w\<lparr>dbs := (dbs w)(dbn := None)\<rparr>)"

definition database_listed :: "world \<Rightarrow> string \<Rightarrow> bool" where
  "database_listed w dbn = (dbs w dbn \<noteq> None)"

definition create_index :: "string \<Rightarrow> string \<Rightarrow> index \<Rightarrow> world \<Rightarrow> world" where
  "create_index dbn cn ix w =
     (let c = get_collection w dbn cn;
          c' = (if ix \<in> set (indexes c) then c else c\<lparr>indexes := indexes c @ [ix]\<rparr>)
      in issue (CreateIndex dbn cn ix) (put_collection dbn cn c' w))"

text \<open>
  Query filters: \<open>{'$gte': lo, '$lt': hi}\<close> is \<open>Range lo hi\<close>, \<open>{'$in': xs}\<close> is
  \<open>In xs\<close>. A document without the field matches neither.
\<close>

fun matches_cond :: "int option \<Rightarrow> cond \<Rightarrow> bool" where
  "matches_cond None _ = False"
| "matches_cond (Some x) (Range lo hi) = (lo \<le> x \<and> x < hi)"
| "matches_cond (Some x) (In xs) = (x \<in> set xs)"

definition matches :: "document \<Rightarrow> query \<Rightarrow> bool" where
  "matches d q = list_all (\<lambda>(f, c). matches_cond (d f) c) q"

definition find_docs :: "string \<Rightarrow> string \<Rightarrow> query \<Rightarrow> world \<Rightarrow> document list \<times> world" where
  "find_docs dbn cn q w =
     (filter (\<lambda>d. matches d q) (docs (get_collection w dbn cn)), issue (Find dbn cn q) w)"

text \<open>
  A document conflicts with a collection when it agrees with a stored document on every
  field of some unique index (a missing field counts as null). An ordered
  \<open>insert_many\<close> stops at the first conflict and leaves the rest of the batch out; an
  unordered one tries every document. \<open>ordered=True\<close> is pymongo's default.
\<close>

definition key_of :: "index \<Rightarrow> document \<Rightarrow> int option list" where
  "key_of ix d = map d (idx_keys ix)"

definition duplicate_key :: "collection \<Rightarrow> document \<Rightarrow> bool" where
  "duplicate_key c d =
     list_ex (\<lambda>ix. idx_unique ix \<and> list_ex (\<lambda>d'. key_of ix d' = key_of ix d) (docs c)) (indexes c)"

fun insert_ordered :: "collection \<Rightarrow> document list \<Rightarrow> collection \<times> document list" where
  "insert_ordered c [] = (c, [])"
| "insert_ordered c (d # ds) =
     (if duplicate_key c d then (c, [d])
      else insert_ordered (c\<lparr>docs := docs c @ [d]\<rparr>) ds)"

fun insert_unordered :: "collection \<Rightarrow> document list \<Rightarrow> collection \<times> document list" where
  "insert_unordered c [] = (c, [])"
| "insert_unordered c (d # ds) =
     (if duplicate_key c d then (case insert_unordered c ds of (c', errs) \<Rightarrow> (c', d # errs))
      else insert_unordered (c\<lparr>docs := docs c @ [d]\<rparr>) ds)"

definition insert_many ::
  "string \<Rightarrow> string \<Rightarrow> document list \<Rightarrow> bool \<Rightarrow> world \<Rightarrow> (error + unit) \<times> world" where
  "insert_many dbn cn ds ordered w =
     (case (if ordered then insert_ordered else insert_unordered) (get_collection w dbn cn) ds of
        (c', errs) \<Rightarrow>
          (if errs = [] then Inr () else Inl (BulkWriteError errs),
           issue (InsertMany dbn cn ds ordered) (put_collection dbn cn c' w)))"

section \<open>The in-memory graph\<close>

text \<open>
  Modelled from the spec: the graph container that \<open>MongoDbSubRag\<close> inherits
  (\<open>shared_rag_provider.SubRag\<close>, a networkx graph) is not among the sources. The spec gives
  a SubGraph as a map from node ids to nodes and a map from edges to attributes, a Stub
  being a node that carries identity only; extraction inserts a Stub for every edge
  endpoint not yet present. Here \<open>node\<close> lists the nodes with their attribute
  dictionaries in insertion order and \<open>edges\<close> lists each undirected edge once, in the
  orientation the iteration \<open>edges(data=True)\<close> reports it. The record also holds what
  \<open>MongoDbSubRag.__init__\<close> stores: the database name and the access mode.
\<close>

record subrag =
  sr_db_name :: string
  sr_mode :: string
  node :: "(int \<times> document) list"
  edges :: "(int \<times> int \<times> document) list"

definition ensure_node :: "int \<Rightarrow> (int \<times> document) list \<Rightarrow> (int \<times> document) list" where
  "ensure_node n ns = (case map_of ns n of None \<Rightarrow> ns @ [(n, Map.empty)] | Some _ \<Rightarrow> ns)"

fun add_nodes_from :: "(int \<times> document) list \<Rightarrow> subrag \<Rightarrow> subrag" where
  "add_nodes_from [] g = g"
| "add_nodes_from ((n, dd) # rest) g =
     add_nodes_from rest
       (g\<lparr>node := (case map_of (node g) n of
                     None \<Rightarrow> node g @ [(n, dd)]
                   | Some old \<Rightarrow> AList.update n (old ++ dd) (node g))\<rparr>)"

fun put_edge ::
  "int \<Rightarrow> int \<Rightarrow> document \<Rightarrow> (int \<times> int \<times> document) list \<Rightarrow> (int \<times> int \<times> document) list" where
  "put_edge u v dd [] = [(u, v, dd)]"
| "put_edge u v dd ((a, b, old) # es) =
     (if (a = u \<and> b = v) \<or> (a = v \<and> b = u) then (a, b, old ++ dd) # es
      else (a, b, old) # put_edge u v dd es)"

definition add_edge :: "int \<Rightarrow> int \<Rightarrow> document \<Rightarrow> subrag \<Rightarrow> subrag" where
  "add_edge u v dd g =
     g\<lparr>node := ensure_node v (ensure_node u (node g)), edges := put_edge u v dd (edges g)\<rparr>"

fun add_edges_from :: "(int \<times> int \<times> document) list \<Rightarrow> subrag \<Rightarrow> subrag" where
  "add_edges_from [] g = g"
| "add_edges_from ((u, v, dd) # rest) g = add_edges_from rest (add_edge u v dd g)"

section \<open>MongoDbSubRag\<close>

definition MongoDbSubRag :: "string \<Rightarrow> string \<Rightarrow> world \<Rightarrow> subrag \<times> world" where
  "MongoDbSubRag dbn m w =
     (\<lparr>sr_db_name = dbn, sr_mode = m, node = [], edges = []\<rparr>, issue Connect w)"

text \<open>
  \<open>_contains\<close>: looks the minimum node up, answers \<open>False\<close> when it has no
  \<open>center_z\<close>, and otherwise reads all three centre fields (a missing one is a
  \<open>KeyError\<close>) and asks the region.
\<close>

definition contains :: "subrag \<Rightarrow> roi \<Rightarrow> int \<times> int \<Rightarrow> error + bool" where
  "contains g r e =
     (case e of (u, v) \<Rightarrow>
        (case map_of (node g) u of
           None \<Rightarrow> Inl (KeyError ''node'')
         | Some min_node \<Rightarrow>
             (case min_node ''center_z'' of
                None \<Rightarrow> Inr False
              | Some cz \<Rightarrow>
                  (case min_node ''center_y'' of
                     None \<Rightarrow> Inl (KeyError ''center_y'')
                   | Some cy \<Rightarrow>
                       (case min_node ''center_x'' of
                          None \<Rightarrow> Inl (KeyError ''center_x'')
                        | Some cx \<Rightarrow> Inr (roi_contains r [cz, cy, cx]))))))"

text \<open>The loop of \<open>sync_edges\<close>: the list of edge records it builds, or the error raised.\<close>

fun edge_records ::
  "subrag \<Rightarrow> roi \<Rightarrow> (int \<times> int \<times> document) list \<Rightarrow> document list \<Rightarrow> error + document list" where
  "edge_records g r [] acc = Inr acc"
| "edge_records g r ((u0, v0, data) # rest) acc =
     (let u = min u0 v0; v = max u0 v0 in
        (case contains g r (u, v) of
           Inl err \<Rightarrow> Inl err
         | Inr False \<Rightarrow> edge_records g r rest acc
         | Inr True \<Rightarrow> edge_records g r rest (acc @ [[''u'' \<mapsto> u, ''v'' \<mapsto> v] ++ data])))"

definition sync_edges :: "subrag \<Rightarrow> roi \<Rightarrow> world \<Rightarrow> (error + unit) \<times> world" where
  "sync_edges g r w =
     (if sr_mode g = ''r'' then (Inl (RuntimeError ''Trying to write to read-only DB''), w)
      else (case edge_records g r (edges g) [] of
              Inl err \<Rightarrow> (Inl err, w)
            | Inr es \<Rightarrow>
                (if length es = 0 then (Inr (), w)
                 else insert_many (sr_db_name g) ''edges'' es True w)))"

text \<open>The loop of \<open>sync_nodes\<close>: one record for every node the graph iterates over.\<close>

fun node_records :: "(int \<times> document) list \<Rightarrow> document list \<Rightarrow> document list" where
  "node_records [] acc = acc"
| "node_records ((node_id, data) # rest) acc =
     node_records rest (acc @ [[''id'' \<mapsto> node_id] ++ data])"

definition sync_nodes :: "subrag \<Rightarrow> world \<Rightarrow> (error + unit) \<times> world" where
  "sync_nodes g w =
     (if sr_mode g = ''r'' then (Inl (RuntimeError ''Trying to write to read-only DB''), w)
      else (let ns = node_records (node g) [] in
              if length ns = 0 then (Inr (), w)
              else insert_many (sr_db_name g) ''nodes'' ns True w))"

section \<open>MongoDbRagProvider\<close>

record provider =
  db_name :: string
  mode :: string

definition setup_db :: "string \<Rightarrow> world \<Rightarrow> world" where
  "setup_db dbn w =
     create_index dbn ''edges''
       \<lparr>idx_name = ''incident'', idx_keys = [''u'', ''v''], idx_unique = True\<rparr>
       (create_index dbn ''nodes''
          \<lparr>idx_name = ''id'', idx_keys = [''id''], idx_unique = True\<rparr>
          (create_index dbn ''nodes''
             \<lparr>idx_name = ''position'',
              idx_keys = [''center_z'', ''center_y'', ''center_x''],
              idx_unique = False\<rparr> w))"

definition provider_init :: "string \<Rightarrow> string \<Rightarrow> world \<Rightarrow> provider \<times> world" where
  "provider_init dbn m w =
     (let w1 = issue Connect w;
          w2 = (if m = ''w'' then drop_database dbn w1 else w1);
          w3 = issue ListDatabaseNames w2;
          w4 = (if \<not> database_listed w3 dbn then setup_db dbn w3 else w3)
      in (\<lparr>db_name = dbn, mode = m\<rparr>, issue Close w4))"

text \<open>\<open>__remove_keys\<close>: \<open>del dictionary[key]\<close> raises on a key that is not there.\<close>

fun remove_keys :: "document \<Rightarrow> string list \<Rightarrow> error + document" where
  "remove_keys d [] = Inr d"
| "remove_keys d (k # ks) =
     (if d k = None then Inl (KeyError k) else remove_keys (d(k := None)) ks)"

definition read_nodes :: "string \<Rightarrow> roi \<Rightarrow> world \<Rightarrow> (error + document list) \<times> world" where
  "read_nodes dbn r w =
     (case get_begin r of
        [bz, by, bx] \<Rightarrow>
          (case get_end r of
             [ez, ey, ex] \<Rightarrow>
               (case find_docs dbn ''nodes''
                       [(''center_z'', Range bz ez), (''center_y'', Range by ey),
                        (''center_x'', Range bx ex)] w of
                  (ns, w') \<Rightarrow> (Inr ns, w'))
           | _ \<Rightarrow> (Inl ValueError, w))
      | _ \<Rightarrow> (Inl ValueError, w))"

text \<open>A list comprehension whose element expression may raise.\<close>

fun collect :: "('a \<Rightarrow> error + 'b) \<Rightarrow> 'a list \<Rightarrow> error + 'b list" where
  "collect f [] = Inr []"
| "collect f (x # xs) =
     (case f x of
        Inl err \<Rightarrow> Inl err
      | Inr y \<Rightarrow> (case collect f xs of Inl err \<Rightarrow> Inl err | Inr ys \<Rightarrow> Inr (y # ys)))"

definition node_entry :: "document \<Rightarrow> error + (int \<times> document)" where
  "node_entry n =
     (case n ''id'' of
        None \<Rightarrow> Inl (KeyError ''id'')
      | Some i \<Rightarrow> (case remove_keys n [''id''] of Inl err \<Rightarrow> Inl err | Inr d \<Rightarrow> Inr (i, d)))"

definition edge_entry :: "document \<Rightarrow> error + (int \<times> int \<times> document)" where
  "edge_entry e =
     (case e ''u'' of
        None \<Rightarrow> Inl (KeyError ''u'')
      | Some u \<Rightarrow>
          (case e ''v'' of
             None \<Rightarrow> Inl (KeyError ''v'')
           | Some v \<Rightarrow>
               (case remove_keys e [''u'', ''v''] of
                  Inl err \<Rightarrow> Inl err
                | Inr d \<Rightarrow> Inr (u, v, d))))"

text \<open>
  The \<open>try\<close> block of \<open>__getitem__\<close>: the node list and the edge list read from the
  store, or the error raised on the way.
\<close>

definition read_lists ::
  "string \<Rightarrow> roi \<Rightarrow> world \<Rightarrow>
   (error + (int \<times> document) list \<times> (int \<times> int \<times> document) list) \<times> world" where
  "read_lists dbn r w =
     (case read_nodes dbn r w of
        (Inl err, w1) \<Rightarrow> (Inl err, w1)
      | (Inr ns, w1) \<Rightarrow>
          (case collect node_entry ns of
             Inl err \<Rightarrow> (Inl err, w1)
           | Inr node_list \<Rightarrow>
               (let node_ids = map fst node_list in
                  (case find_docs dbn ''edges'' [(''u'', In node_ids)] w1 of
                     (es, w2) \<Rightarrow>
                       (case collect edge_entry es of
                          Inl err \<Rightarrow> (Inl err, w2)
                        | Inr edge_list \<Rightarrow> (Inr (node_list, edge_list), w2))))))"

definition getitem :: "provider \<Rightarrow> roi \<Rightarrow> world \<Rightarrow> (error + subrag) \<times> world" where
  "getitem p r w =
     (if dims r \<noteq> 3
      then (Inl (AssertionError ''Sorry, MongoDbRagProvider backend does only 3D''), w)
      else (case read_lists (db_name p) r (issue Connect w) of
              (Inl err, w1) \<Rightarrow> (Inl err, issue Close w1)
            | (Inr (node_list, edge_list), w1) \<Rightarrow>
                (case MongoDbSubRag (db_name p) (mode p) (issue Close w1) of
                   (graph, w2) \<Rightarrow>
                     (Inr (add_edges_from edge_list (add_nodes_from node_list graph)), w2))))"

section \<open>The properties, in the words of the specification\<close>

text \<open>
  A node is Full when its dictionary has the three position fields, and \<open>center\<close> is
  then its position \<open>(z, y, x)\<close>. \<open>in_region\<close> is half-open containment in a 3D
  region, axis by axis. \<open>ownership_rule\<close> is the rule of the specification: the region
  owns an edge when the node of the smaller id is Full and its position lies in the region.
  \<open>edge_record\<close> names the record the loop of \<open>sync_edges\<close> builds for an edge.
\<close>

definition center :: "document \<Rightarrow> (int \<times> int \<times> int) option" where
  "center d =
     (case d ''center_z'' of None \<Rightarrow> None | Some z \<Rightarrow>
        (case d ''center_y'' of None \<Rightarrow> None | Some y \<Rightarrow>
           (case d ''center_x'' of None \<Rightarrow> None | Some x \<Rightarrow> Some (z, y, x))))"

definition in_region :: "roi \<Rightarrow> int \<times> int \<times> int \<Rightarrow> bool" where
  "in_region r p =
     (case (r, p) of
        ([(bz, ez), (by, ey), (bx, ex)], (z, y, x)) \<Rightarrow>
          bz \<le> z \<and> z < ez \<and> by \<le> y \<and> y < ey \<and> bx \<le> x \<and> x < ex
      | _ \<Rightarrow> False)"

definition ownership_rule :: "subrag \<Rightarrow> roi \<Rightarrow> int \<times> int \<times> document \<Rightarrow> bool" where
  "ownership_rule g r e =
     (case e of (a, b, data) \<Rightarrow>
        (case map_of (node g) (min a b) of
           None \<Rightarrow> False
         | Some n \<Rightarrow> (case center n of None \<Rightarrow> False | Some p \<Rightarrow> in_region r p)))"

definition edge_record :: "int \<times> int \<times> document \<Rightarrow> document" where
  "edge_record e = (case e of (a, b, data) \<Rightarrow> [''u'' \<mapsto> min a b, ''v'' \<mapsto> max a b] ++ data)"

text \<open>
  The graphs the claims are about: a node either has all three position fields or has no
  \<open>center_z\<close> (Full or Stub), and both endpoints of an edge are nodes of the graph.
\<close>

definition full_or_stub :: "document \<Rightarrow> bool" where
  "full_or_stub d = (center d \<noteq> None \<or> d ''center_z'' = None)"

definition graph_ok :: "subrag \<Rightarrow> bool" where
  "graph_ok g =
     (list_all (\<lambda>(i, d). full_or_stub d) (node g) \<and>
      list_all (\<lambda>(a, b, d). map_of (node g) a \<noteq> None \<and> map_of (node g) b \<noteq> None) (edges g))"

text \<open>
  The canonical key of an edge is the pair the loop of \<open>sync_edges\<close> computes,
  \<open>(min(u, v), max(u, v))\<close>; the key of a record is what its \<open>u\<close> and \<open>v\<close> fields
  hold, the pair the store's unique index compares. An edge has plain attributes when no
  attribute of it is named \<open>u\<close> or \<open>v\<close>.
\<close>

definition canonical_key :: "int \<times> int \<times> document \<Rightarrow> int \<times> int" where
  "canonical_key e = (case e of (a, b, data) \<Rightarrow> (min a b, max a b))"

definition record_key :: "document \<Rightarrow> int option \<times> int option" where
  "record_key d = (d ''u'', d ''v'')"

definition plain_attributes :: "int \<times> int \<times> document \<Rightarrow> bool" where
  "plain_attributes e = (case e of (a, b, data) \<Rightarrow> data ''u'' = None \<and> data ''v'' = None)"

text \<open>
  Two stored edges are the same edge when they carry the same attributes and join the same
  two nodes, in either orientation. A record is canonical when it has both key fields and
  \<open>u \<le> v\<close>.
\<close>

definition same_edge :: "int \<times> int \<times> document \<Rightarrow> int \<times> int \<times> document \<Rightarrow> bool" where
  "same_edge e e' =
     (case (e, e') of
        ((a, b, d), (a', b', d')) \<Rightarrow> d = d' \<and> ((a = a' \<and> b = b') \<or> (a = b' \<and> b = a')))"

definition canonical_record :: "document \<Rightarrow> bool" where
  "canonical_record d = (case record_key d of (Some u, Some v) \<Rightarrow> u \<le> v | _ \<Rightarrow> False)"

text \<open>\<open>node_record\<close> names the record the loop of \<open>sync_nodes\<close> builds for a node.\<close>

definition node_record :: "int \<times> document \<Rightarrow> document" where
  "node_record n = (case n of (node_id, data) \<Rightarrow> [''id'' \<mapsto> node_id] ++ data)"

text \<open>
  The schema: the database as \<open>__setup_db\<close> leaves a database that did not exist, and
  the three calls that create it. \<open>issued w w'\<close> are the calls made between the states
  \<open>w\<close> and \<open>w'\<close>.
\<close>

definition fresh_schema :: database where
  "fresh_schema =
     [''nodes'' \<mapsto>
        \<lparr>docs = [],
         indexes = [\<lparr>idx_name = ''position'',
                     idx_keys = [''center_z'', ''center_y'', ''center_x''],
                     idx_unique = False\<rparr>,
                    \<lparr>idx_name = ''id'', idx_keys = [''id''], idx_unique = True\<rparr>]\<rparr>,
      ''edges'' \<mapsto>
        \<lparr>docs = [],
         indexes = [\<lparr>idx_name = ''incident'', idx_keys = [''u'', ''v''], idx_unique = True\<rparr>]\<rparr>]"

definition issued :: "world \<Rightarrow> world \<Rightarrow> call list" where
  "issued w w' = drop (length (calls w)) (calls w')"

definition schema_calls :: "string \<Rightarrow> call list" where
  "schema_calls dbn =
     [CreateIndex dbn ''nodes''
        \<lparr>idx_name = ''position'', idx_keys = [''center_z'', ''center_y'', ''center_x''],
         idx_unique = False\<rparr>,
      CreateIndex dbn ''nodes'' \<lparr>idx_name = ''id'', idx_keys = [''id''], idx_unique = True\<rparr>,
      CreateIndex dbn ''edges''
        \<lparr>idx_name = ''incident'', idx_keys = [''u'', ''v''], idx_unique = True\<rparr>]"

fun is_drop :: "call \<Rightarrow> bool" where
  "is_drop (DropDatabase n) = True"
| "is_drop _ = False"

text \<open>
  Extraction, in the words of the specification. A persisted node lies in a region when it
  has a position and the position is in the region. \<open>nodes_in\<close> are the persisted nodes
  in the region, \<open>returned_ids\<close> their ids, \<open>edges_from\<close> the persisted edges whose
  \<open>u\<close> is among given ids. \<open>store_ok\<close>: every persisted node has an \<open>id\<close> and every
  persisted edge has \<open>u\<close> and \<open>v\<close>, as the records of \<open>sync_nodes\<close> and
  \<open>sync_edges\<close> have. \<open>node_of_doc\<close> and \<open>edge_of_doc\<close> name the graph entries that
  \<open>__getitem__\<close> makes of a document, \<open>assemble\<close> the graph it builds from the two
  query results, and \<open>has_edge\<close> says that two nodes are joined in a graph.
\<close>

definition position_in :: "roi \<Rightarrow> document \<Rightarrow> bool" where
  "position_in r d = (case center d of None \<Rightarrow> False | Some p \<Rightarrow> in_region r p)"

definition persisted_nodes :: "world \<Rightarrow> string \<Rightarrow> document list" where
  "persisted_nodes w dbn = docs (get_collection w dbn ''nodes'')"

definition persisted_edges :: "world \<Rightarrow> string \<Rightarrow> document list" where
  "persisted_edges w dbn = docs (get_collection w dbn ''edges'')"

definition store_ok :: "world \<Rightarrow> string \<Rightarrow> bool" where
  "store_ok w dbn =
     (list_all (\<lambda>d. d ''id'' \<noteq> None) (persisted_nodes w dbn) \<and>
      list_all (\<lambda>e. e ''u'' \<noteq> None \<and> e ''v'' \<noteq> None) (persisted_edges w dbn))"

definition node_of_doc :: "document \<Rightarrow> int \<times> document" where
  "node_of_doc d = (the (d ''id''), d(''id'' := None))"

definition edge_of_doc :: "document \<Rightarrow> int \<times> int \<times> document" where
  "edge_of_doc e = (the (e ''u''), the (e ''v''), e(''u'' := None, ''v'' := None))"

definition nodes_in :: "world \<Rightarrow> string \<Rightarrow> roi \<Rightarrow> document list" where
  "nodes_in w dbn r = filter (position_in r) (persisted_nodes w dbn)"

definition returned_ids :: "world \<Rightarrow> string \<Rightarrow> roi \<Rightarrow> int list" where
  "returned_ids w dbn r = map (\<lambda>d. the (d ''id'')) (nodes_in w dbn r)"

definition edges_from :: "world \<Rightarrow> string \<Rightarrow> int list \<Rightarrow> document list" where
  "edges_from w dbn ids =
     filter (\<lambda>e. case e ''u'' of None \<Rightarrow> False | Some u \<Rightarrow> u \<in> set ids) (persisted_edges w dbn)"

definition has_edge :: "subrag \<Rightarrow> int \<Rightarrow> int \<Rightarrow> bool" where
  "has_edge g u v = list_ex (\<lambda>(a, b, d). (a = u \<and> b = v) \<or> (a = v \<and> b = u)) (edges g)"

definition assemble :: "provider \<Rightarrow> document list \<Rightarrow> document list \<Rightarrow> subrag" where
  "assemble p ns es =
     add_edges_from (map edge_of_doc es)
       (add_nodes_from (map node_of_doc ns)
          \<lparr>sr_db_name = db_name p, sr_mode = mode p, node = [], edges = []\<rparr>)"

definition endpoints :: "(int \<times> int \<times> document) list \<Rightarrow> int set" where
  "endpoints el = fst ` set el \<union> (fst \<circ> snd) ` set el"


section \<open>Concrete inputs\<close>

definition empty_world :: world where
  "empty_world = \<lparr>dbs = Map.empty, calls = []\<rparr>"

definition block_graph :: subrag where
  "block_graph =
     \<lparr>sr_db_name = ''rag'', sr_mode = ''r+'',
      node = [(3, [''center_z'' \<mapsto> 1, ''center_y'' \<mapsto> 1, ''center_x'' \<mapsto> 1]),
              (4, [''center_z'' \<mapsto> 7, ''center_y'' \<mapsto> 7, ''center_x'' \<mapsto> 7]),
              (7, Map.empty), (9, Map.empty)],
      edges = [(7, 3, [''score'' \<mapsto> 9]), (4, 7, Map.empty), (7, 9, Map.empty)]\<rparr>"

definition lower_block :: roi where
  "lower_block = [(0, 5), (0, 5), (0, 5)]"

definition upper_block :: roi where
  "upper_block = [(5, 10), (5, 10), (5, 10)]"

definition shadowed_graph :: subrag where
  "shadowed_graph =
     \<lparr>sr_db_name = ''rag'', sr_mode = ''r+'',
      node = [(1, [''center_z'' \<mapsto> 1, ''center_y'' \<mapsto> 1, ''center_x'' \<mapsto> 1]), (2, Map.empty)],
      edges = [(1, 2, [''u'' \<mapsto> 5])]\<rparr>"

text \<open>
  A store whose database \<open>rag\<close> has the schema and already holds node 3 and the edge
  \<open>(3, 7)\<close>, and a graph that holds node 3 and that edge again among new ones.
\<close>

definition seeded_world :: world where
  "seeded_world =
     \<lparr>dbs = [''rag'' \<mapsto>
        [''nodes'' \<mapsto>
           \<lparr>docs = [[''id'' \<mapsto> 3, ''center_z'' \<mapsto> 1, ''center_y'' \<mapsto> 1, ''center_x'' \<mapsto> 1]],
            indexes = [\<lparr>idx_name = ''position'',
                        idx_keys = [''center_z'', ''center_y'', ''center_x''],
                        idx_unique = False\<rparr>,
                       \<lparr>idx_name = ''id'', idx_keys = [''id''], idx_unique = True\<rparr>]\<rparr>,
         ''edges'' \<mapsto>
           \<lparr>docs = [[''u'' \<mapsto> 3, ''v'' \<mapsto> 7]],
            indexes = [\<lparr>idx_name = ''incident'', idx_keys = [''u'', ''v''], idx_unique = True\<rparr>]\<rparr>]],
      calls = []\<rparr>"

definition resync_graph :: subrag where
  "resync_graph =
     \<lparr>sr_db_name = ''rag'', sr_mode = ''r+'',
      node = [(4, [''center_z'' \<mapsto> 2, ''center_y'' \<mapsto> 2, ''center_x'' \<mapsto> 2]),
              (3, [''center_z'' \<mapsto> 1, ''center_y'' \<mapsto> 1, ''center_x'' \<mapsto> 1]),
              (7, Map.empty), (9, Map.empty)],
      edges = [(4, 3, Map.empty), (3, 7, Map.empty), (9, 3, Map.empty)]\<rparr>"

text \<open>
  A store with node 3 at \<open>(1, 1, 1)\<close>, node 7 at \<open>(7, 7, 7)\<close>, the edge \<open>(3, 7)\<close>
  and an edge \<open>(7, 8)\<close>, read through a read-only provider.
\<close>

definition scenario_world :: world where
  "scenario_world =
     \<lparr>dbs = [''rag'' \<mapsto>
        [''nodes'' \<mapsto>
           \<lparr>docs = [[''id'' \<mapsto> 3, ''center_z'' \<mapsto> 1, ''center_y'' \<mapsto> 1, ''center_x'' \<mapsto> 1],
                    [''id'' \<mapsto> 7, ''center_z'' \<mapsto> 7, ''center_y'' \<mapsto> 7, ''center_x'' \<mapsto> 7]],
            indexes = []\<rparr>,
         ''edges'' \<mapsto>
           \<lparr>docs = [[''u'' \<mapsto> 3, ''v'' \<mapsto> 7, ''score'' \<mapsto> 9], [''u'' \<mapsto> 7, ''v'' \<mapsto> 8]],
            indexes = []\<rparr>]],
      calls = []\<rparr>"

definition scenario_provider :: provider where
  "scenario_provider = \<lparr>db_name = ''rag'', mode = ''r''\<rparr>"


section \<open>Batches that meet no conflict\<close>


lemma get_put_collection: "get_collection (put_collection dbn cn c w) dbn cn = c"
  by (simp add: get_collection_def put_collection_def)


section \<open>Ownership of edges\<close>

lemma dims3: "dims r = 3 \<Longrightarrow> \<exists>bz ez by ey bx ex. r = [(bz, ez), (by, ey), (bx, ex)]"
  unfolding dims_def
  by (cases r; simp; cases "tl r"; simp; cases "tl (tl r)"; auto)

lemma roi_contains_3d:
  "dims r = 3 \<Longrightarrow> roi_contains r [z, y, x] = in_region r (z, y, x)"
  using dims3[of r] by (auto simp: roi_contains_def in_region_def get_begin_def get_end_def)

lemma contains_ownership:
  assumes "dims r = 3" and "map_of (node g) (min a b) = Some n" and "full_or_stub n"
  shows "contains g r (min a b, max a b) = Inr (ownership_rule g r (a, b, d))"
  using assms
  by (auto simp: contains_def ownership_rule_def center_def full_or_stub_def roi_contains_3d
      split: option.splits)

lemma edge_records_filter:
  assumes "dims r = 3"
    and "list_all (\<lambda>(i, d). full_or_stub d) (node g)"
    and "list_all (\<lambda>(a, b, d). map_of (node g) a \<noteq> None \<and> map_of (node g) b \<noteq> None) es"
  shows "edge_records g r es acc = Inr (acc @ map edge_record (filter (ownership_rule g r) es))"
  using assms(3)
proof (induction es arbitrary: acc)
  case Nil
  then show ?case by simp
next
  case (Cons e es)
  obtain a b d where e: "e = (a, b, d)" by (cases e)
  from Cons.prems e have "map_of (node g) (min a b) \<noteq> None"
    by (auto simp: min_def)
  then obtain n where n: "map_of (node g) (min a b) = Some n" by blast
  then have "(min a b, n) \<in> set (node g)" by (rule map_of_SomeD)
  with assms(2) have "full_or_stub n" by (auto simp: list_all_iff)
  with n assms(1) have c: "contains g r (min a b, max a b) = Inr (ownership_rule g r (a, b, d))"
    by (simp add: contains_ownership)
  from Cons.prems have rest: "list_all (\<lambda>(a, b, d). map_of (node g) a \<noteq> None \<and> map_of (node g) b \<noteq> None) es"
    by simp
  show ?case
    using Cons.IH[OF rest] c by (simp add: e edge_record_def)
qed

lemma block_graph_ok: "graph_ok block_graph"
  by (simp add: graph_ok_def block_graph_def full_or_stub_def center_def)



lemma resync_graph_ok: "graph_ok resync_graph"
  by (simp add: graph_ok_def resync_graph_def full_or_stub_def center_def)

theorem conflict_skips_owned_counterexample:
  "dims lower_block = 3 \<and> graph_ok resync_graph \<and> sr_mode resync_graph = ''r+'' \<and>
   ownership_rule resync_graph lower_block (9, 3, Map.empty) = True \<and>
   map canonical_key (filter (ownership_rule resync_graph lower_block) (edges resync_graph))
     = [(3, 4), (3, 7), (3, 9)] \<and>
   map record_key (docs (get_collection seeded_world ''rag'' ''edges'')) = [(Some 3, Some 7)] \<and>
   map record_key
     (docs (get_collection (snd (sync_edges resync_graph lower_block seeded_world)) ''rag'' ''edges''))
     = [(Some 3, Some 7), (Some 3, Some 4)]"
proof -
  have "map record_key
     (docs (get_collection (snd (sync_edges resync_graph lower_block seeded_world)) ''rag'' ''edges''))
     = [(Some 3, Some 7), (Some 3, Some 4)]"
    by (simp add: resync_graph_def seeded_world_def lower_block_def sync_edges_def contains_def
        roi_contains_def get_begin_def get_end_def insert_many_def get_collection_def
        put_collection_def issue_def duplicate_key_def key_of_def record_key_def)
  moreover have "map canonical_key (filter (ownership_rule resync_graph lower_block) (edges resync_graph))
     = [(3, 4), (3, 7), (3, 9)]"
    by (simp add: resync_graph_def lower_block_def ownership_rule_def center_def in_region_def
        canonical_key_def)
  moreover have "ownership_rule resync_graph lower_block (9, 3, Map.empty) = True"
    by (simp add: resync_graph_def lower_block_def ownership_rule_def center_def in_region_def)
  moreover have "map record_key (docs (get_collection seeded_world ''rag'' ''edges'')) = [(Some 3, Some 7)]"
    by (simp add: seeded_world_def get_collection_def record_key_def)
  moreover have "dims lower_block = 3" "sr_mode resync_graph = ''r+''"
    by (simp_all add: dims_def lower_block_def resync_graph_def)
  ultimately show ?thesis using resync_graph_ok by (intro conjI)
qed

section \<open>Regions that do not intersect\<close>

lemma disjoint_regions:
  assumes "dims r1 = 3" and "dims r2 = 3" and "\<not> intersects r1 r2"
  shows "\<not> (in_region r1 p \<and> in_region r2 p)"
proof -
  obtain bz ez "by" ey bx ex where r1: "r1 = [(bz, ez), (by, ey), (bx, ex)]"
    using dims3[OF assms(1)] by blast
  obtain bz' ez' by' ey' bx' ex' where r2: "r2 = [(bz', ez'), (by', ey'), (bx', ex')]"
    using dims3[OF assms(2)] by blast
  obtain z y x where p: "p = (z, y, x)" by (cases p)
  from assms(3) show ?thesis
    unfolding r1 r2 p intersects_def roi_empty_def in_region_def
    by auto
qed

text \<open>Two 3D regions intersect exactly when some point lies in both.\<close>

lemma intersects_common_point:
  assumes "dims r1 = 3" and "dims r2 = 3"
  shows "intersects r1 r2 = (\<exists>p. in_region r1 p \<and> in_region r2 p)"
proof -
  obtain bz ez "by" ey bx ex where r1: "r1 = [(bz, ez), (by, ey), (bx, ex)]"
    using dims3[OF assms(1)] by blast
  obtain bz' ez' by' ey' bx' ex' where r2: "r2 = [(bz', ez'), (by', ey'), (bx', ex')]"
    using dims3[OF assms(2)] by blast
  show ?thesis
  proof
    assume "intersects r1 r2"
    then have "in_region r1 (max bz bz', max by by', max bx bx') \<and>
               in_region r2 (max bz bz', max by by', max bx bx')"
      unfolding r1 r2 intersects_def roi_empty_def in_region_def by auto
    then show "\<exists>p. in_region r1 p \<and> in_region r2 p" by blast
  next
    assume "\<exists>p. in_region r1 p \<and> in_region r2 p"
    then show "intersects r1 r2"
      using disjoint_regions[OF assms] by blast
  qed
qed


lemma owned_once:
  assumes "dims r1 = 3" and "dims r2 = 3" and "\<not> intersects r1 r2"
  shows "\<not> (ownership_rule g r1 (a, b, d) \<and> ownership_rule g r2 (a', b', d') \<and> min a b = min a' b')"
  using disjoint_regions[OF assms]
  by (auto simp: ownership_rule_def split: option.splits)

lemma record_key_edge_record:
  "plain_attributes e \<Longrightarrow> record_key (edge_record e) = (Some (fst (canonical_key e)), Some (snd (canonical_key e)))"
  by (cases e) (simp add: plain_attributes_def record_key_def edge_record_def canonical_key_def map_add_def)

text \<open>
  Claim C2. For two 3D regions that do not intersect and one graph, the edges that
  \<open>sync_edges\<close> selects for the one region and for the other are disjoint, and so are
  their canonical keys: the minimum endpoint of an edge cannot lie in both regions. Where
  no attribute shadows the fields \<open>u\<close> and \<open>v\<close>, the two batches hold no record with the
  same \<open>(u, v)\<close> key.
\<close>

theorem sync_edges_disjoint:
  assumes "dims r1 = 3" and "dims r2 = 3" and "\<not> intersects r1 r2" and "graph_ok g"
  shows "edge_records g r1 (edges g) [] = Inr (map edge_record (filter (ownership_rule g r1) (edges g))) \<and>
         edge_records g r2 (edges g) [] = Inr (map edge_record (filter (ownership_rule g r2) (edges g))) \<and>
         set (filter (ownership_rule g r1) (edges g)) \<inter> set (filter (ownership_rule g r2) (edges g)) = {} \<and>
         canonical_key ` set (filter (ownership_rule g r1) (edges g)) \<inter>
           canonical_key ` set (filter (ownership_rule g r2) (edges g)) = {} \<and>
         (list_all plain_attributes (edges g) \<longrightarrow>
            record_key ` set (map edge_record (filter (ownership_rule g r1) (edges g))) \<inter>
            record_key ` set (map edge_record (filter (ownership_rule g r2) (edges g))) = {})"
proof -
  have b1: "edge_records g r1 (edges g) [] = Inr (map edge_record (filter (ownership_rule g r1) (edges g)))"
    using edge_records_filter[of r1 g "edges g" "[]"] assms(1,4) by (simp add: graph_ok_def)
  have b2: "edge_records g r2 (edges g) [] = Inr (map edge_record (filter (ownership_rule g r2) (edges g)))"
    using edge_records_filter[of r2 g "edges g" "[]"] assms(2,4) by (simp add: graph_ok_def)
  have keys: "canonical_key ` set (filter (ownership_rule g r1) (edges g)) \<inter>
           canonical_key ` set (filter (ownership_rule g r2) (edges g)) = {}"
    using owned_once[OF assms(1-3), of g] by (auto simp: canonical_key_def)
  then have sets: "set (filter (ownership_rule g r1) (edges g)) \<inter> set (filter (ownership_rule g r2) (edges g)) = {}"
    by blast
  have recs: "record_key ` set (map edge_record (filter (ownership_rule g r1) (edges g))) \<inter>
            record_key ` set (map edge_record (filter (ownership_rule g r2) (edges g))) = {}"
    if plain: "list_all plain_attributes (edges g)"
  proof -
    have "record_key (edge_record e) \<noteq> record_key (edge_record e')"
      if "e \<in> set (filter (ownership_rule g r1) (edges g))"
        and "e' \<in> set (filter (ownership_rule g r2) (edges g))" for e e'
    proof -
      from that plain have "plain_attributes e" "plain_attributes e'"
        by (auto simp: list_all_iff)
      moreover from that keys have "canonical_key e \<noteq> canonical_key e'" by blast
      ultimately show ?thesis
        by (auto simp: record_key_edge_record prod_eq_iff)
    qed
    then show ?thesis by (auto simp del: set_filter) metis
  qed
  from b1 b2 sets keys recs show ?thesis by blast
qed

theorem sync_edges_disjoint_witness:
  "dims lower_block = 3 \<and> dims upper_block = 3 \<and> \<not> intersects lower_block upper_block \<and>
   graph_ok block_graph \<and> list_all plain_attributes (edges block_graph) \<and>
   filter (ownership_rule block_graph lower_block) (edges block_graph) = [(7, 3, [''score'' \<mapsto> 9])] \<and>
   filter (ownership_rule block_graph upper_block) (edges block_graph) = [(4, 7, Map.empty)] \<and>
   record_key ` set (map edge_record (filter (ownership_rule block_graph lower_block) (edges block_graph))) \<inter>
   record_key ` set (map edge_record (filter (ownership_rule block_graph upper_block) (edges block_graph))) = {}"
  using sync_edges_disjoint[of lower_block upper_block block_graph] block_graph_ok
  by (simp add: dims_def lower_block_def upper_block_def intersects_def roi_empty_def
      block_graph_def plain_attributes_def ownership_rule_def center_def in_region_def)

section \<open>Rejected calls\<close>

text \<open>
  Claim C8. On a graph bound to the read-only mode \<open>'r'\<close>, \<open>sync_nodes\<close> and
  \<open>sync_edges\<close> raise the error of a write to a read-only database, whatever the graph
  holds, and the store is as it was: no call was issued and nothing was changed.
\<close>

theorem read_only_sync_fails:
  assumes "sr_mode g = ''r''"
  shows "sync_nodes g w = (Inl (RuntimeError ''Trying to write to read-only DB''), w) \<and>
         sync_edges g r w = (Inl (RuntimeError ''Trying to write to read-only DB''), w)"
  using assms by (simp add: sync_nodes_def sync_edges_def)

theorem read_only_sync_fails_witness:
  "sr_mode (block_graph\<lparr>sr_mode := ''r''\<rparr>) = ''r'' \<and>
   sync_nodes (block_graph\<lparr>sr_mode := ''r''\<rparr>) empty_world
     = (Inl (RuntimeError ''Trying to write to read-only DB''), empty_world) \<and>
   sync_edges (block_graph\<lparr>sr_mode := ''r''\<rparr>) lower_block empty_world
     = (Inl (RuntimeError ''Trying to write to read-only DB''), empty_world)"
  using read_only_sync_fails[of "block_graph\<lparr>sr_mode := ''r''\<rparr>" empty_world lower_block]
  by simp

text \<open>
  Claim C9. For a region whose dimensionality is not 3, \<open>__getitem__\<close> fails its
  assertion first: the store is as it was, with no connection opened and no query issued.
\<close>

theorem getitem_rejects_other_dims:
  assumes "dims r \<noteq> 3"
  shows "getitem p r w =
           (Inl (AssertionError ''Sorry, MongoDbRagProvider backend does only 3D''), w)"
  using assms by (simp add: getitem_def)

theorem getitem_rejects_other_dims_witness:
  "dims [(0, 5), (0, 5)] \<noteq> 3 \<and>
   getitem \<lparr>db_name = ''rag'', mode = ''r+''\<rparr> [(0, 5), (0, 5)] empty_world =
     (Inl (AssertionError ''Sorry, MongoDbRagProvider backend does only 3D''), empty_world)"
  using getitem_rejects_other_dims[of "[(0, 5), (0, 5)]" "\<lparr>db_name = ''rag'', mode = ''r+''\<rparr>" empty_world]
  by (simp add: dims_def)

section \<open>Canonical orientation\<close>

lemma edge_records_selected:
  "edge_records g r es acc = Inr recs \<Longrightarrow>
   recs = acc @ map edge_record (filter (\<lambda>e. contains g r (canonical_key e) = Inr True) es)"
proof (induction es arbitrary: acc)
  case Nil
  then show ?case by simp
next
  case (Cons e es)
  obtain a b d where e: "e = (a, b, d)" by (cases e)
  show ?case
  proof (cases "contains g r (min a b, max a b)")
    case (Inl err)
    with Cons.prems show ?thesis by (simp add: e)
  next
    case (Inr owned)
    show ?thesis
    proof (cases owned)
      case True
      with Inr Cons.prems
      have "edge_records g r es (acc @ [edge_record e]) = Inr recs"
        by (simp add: e edge_record_def)
      from Cons.IH[OF this] Inr True show ?thesis
        by (simp add: e canonical_key_def)
    next
      case False
      with Inr Cons.prems have "edge_records g r es acc = Inr recs"
        by (simp add: e)
      from Cons.IH[OF this] Inr False show ?thesis
        by (simp add: e canonical_key_def)
    qed
  qed
qed

lemma edge_records_orientation:
  "list_all2 same_edge es es' \<Longrightarrow> edge_records g r es' acc = edge_records g r es acc"
proof (induction es es' arbitrary: acc rule: list_all2_induct)
  case Nil
  then show ?case by simp
next
  case (Cons e es e' es')
  obtain a b d where e: "e = (a, b, d)" by (cases e)
  obtain a' b' d' where e': "e' = (a', b', d')" by (cases e')
  from Cons.hyps(1) have "d' = d" and "min a' b' = min a b" and "max a' b' = max a b"
    by (auto simp: same_edge_def e e')
  then show ?case
    using Cons.IH by (simp add: e e' Let_def split: sum.splits bool.splits)
qed

lemma canonical_edge_record: "plain_attributes e \<Longrightarrow> canonical_record (edge_record e)"
  by (cases e) (simp add: canonical_record_def record_key_edge_record canonical_key_def)

text \<open>
  Claim C10, as amended. \<open>sync_edges\<close> computes \<open>(min(u, v), max(u, v))\<close> for every
  edge before the ownership test and before it builds the record: the call does the same
  whatever the orientation in which each edge is stored, the records it builds are those of
  the edges whose canonical key passes \<open>_contains\<close> (which looks up the first component,
  the minimum), and every record satisfies \<open>u \<le> v\<close> provided no attribute of the edge is
  named \<open>u\<close> or \<open>v\<close>. The record is the two key fields updated with the attributes, so
  an attribute of that name replaces the key field: in \<open>shadowed_graph\<close> the edge
  \<open>(1, 2)\<close> with the attribute \<open>u = 5\<close> is stored under \<open>u = 5, v = 2\<close>.
\<close>


theorem sync_edges_canonical:
  assumes "list_all2 same_edge es es'"
  shows "sync_edges (g\<lparr>edges := es'\<rparr>) r w = sync_edges (g\<lparr>edges := es\<rparr>) r w \<and>
         (case edge_records g r es [] of
            Inl err \<Rightarrow> True
          | Inr recs \<Rightarrow>
              recs = map edge_record (filter (\<lambda>e. contains g r (canonical_key e) = Inr True) es) \<and>
              (list_all plain_attributes es \<longrightarrow> list_all canonical_record recs))"
proof -
  have same_nodes: "contains (g\<lparr>edges := xs\<rparr>) r e = contains g r e" for xs e
    by (simp add: contains_def)
  have ind: "edge_records (g\<lparr>edges := xs\<rparr>) r ys acc = edge_records g r ys acc" for xs ys acc
    by (induction ys arbitrary: acc) (auto simp: same_nodes Let_def split: sum.splits bool.splits)
  have "sync_edges (g\<lparr>edges := es'\<rparr>) r w = sync_edges (g\<lparr>edges := es\<rparr>) r w"
    using edge_records_orientation[OF assms, of g r "[]"]
    by (simp add: sync_edges_def ind split: sum.splits)
  moreover have "recs = map edge_record (filter (\<lambda>e. contains g r (canonical_key e) = Inr True) es) \<and>
              (list_all plain_attributes es \<longrightarrow> list_all canonical_record recs)"
    if "edge_records g r es [] = Inr recs" for recs
    using edge_records_selected[OF that]
    by (auto simp: list_all_iff canonical_edge_record)
  ultimately show ?thesis by (simp split: sum.splits)
qed

theorem sync_edges_canonical_witness:
  "list_all2 same_edge (edges block_graph) [(3, 7, [''score'' \<mapsto> 9]), (7, 4, Map.empty), (7, 9, Map.empty)] \<and>
   sync_edges (block_graph\<lparr>edges := [(3, 7, [''score'' \<mapsto> 9]), (7, 4, Map.empty), (7, 9, Map.empty)]\<rparr>)
      lower_block empty_world
    = sync_edges (block_graph\<lparr>edges := edges block_graph\<rparr>) lower_block empty_world \<and>
   list_all plain_attributes (edges block_graph) \<and>
   edge_records block_graph lower_block (edges block_graph) [] = Inr [[''u'' \<mapsto> 3, ''v'' \<mapsto> 7, ''score'' \<mapsto> 9]] \<and>
   list_all canonical_record [[''u'' \<mapsto> 3, ''v'' \<mapsto> 7, ''score'' \<mapsto> 9]]"
  using sync_edges_canonical[of "edges block_graph"
      "[(3, 7, [''score'' \<mapsto> 9]), (7, 4, Map.empty), (7, 9, Map.empty)]" block_graph lower_block empty_world]
  by (simp add: same_edge_def block_graph_def lower_block_def plain_attributes_def contains_def
      roi_contains_def get_begin_def get_end_def canonical_record_def record_key_def
      sync_edges_def canonical_key_def edge_record_def)

theorem shadowed_key_counterexample:
  "plain_attributes (1, 2, [''u'' \<mapsto> 5]) = False \<and>
   map_sum id (map record_key) (edge_records shadowed_graph lower_block (edges shadowed_graph) [])
     = Inr [(Some 5, Some 2)] \<and>
   map record_key (docs (get_collection (snd (sync_edges shadowed_graph lower_block empty_world)) ''rag'' ''edges''))
     = [(Some 5, Some 2)] \<and>
   canonical_record [''u'' \<mapsto> 5, ''v'' \<mapsto> 2] = False"
  by (simp add: shadowed_graph_def lower_block_def empty_world_def plain_attributes_def contains_def
      roi_contains_def get_begin_def get_end_def canonical_record_def record_key_def
      sync_edges_def insert_many_def get_collection_def put_collection_def issue_def
      empty_collection_def duplicate_key_def)

section \<open>Writing nodes\<close>

lemma node_records_map: "node_records ns acc = acc @ map node_record ns"
  by (induction ns arbitrary: acc) (auto simp: node_record_def)





section \<open>Batches and conflicts\<close>

lemma insert_ordered_clean:
  "insert_ordered c pre = (c', []) \<Longrightarrow> c' = c\<lparr>docs := docs c @ pre\<rparr>"
proof (induction pre arbitrary: c)
  case Nil
  then show ?case by simp
next
  case (Cons a pre)
  from Cons.prems have "insert_ordered (c\<lparr>docs := docs c @ [a]\<rparr>) pre = (c', [])"
    by (simp split: if_splits)
  from Cons.IH[OF this] show ?case by simp
qed

lemma insert_ordered_conflict:
  "insert_ordered c pre = (c', []) \<Longrightarrow> duplicate_key c' d \<Longrightarrow>
   insert_ordered c (pre @ d # post) = (c', [d])"
  by (induction pre arbitrary: c) (auto split: if_splits)

lemma insert_many_conflict:
  assumes "insert_ordered (get_collection w dbn cn) pre = (c', [])" and "duplicate_key c' d"
  shows "insert_many dbn cn (pre @ d # post) True w =
           (Inl (BulkWriteError [d]),
            issue (InsertMany dbn cn (pre @ d # post) True)
              (put_collection dbn cn ((get_collection w dbn cn)\<lparr>docs := docs (get_collection w dbn cn) @ pre\<rparr>) w))"
  using insert_ordered_conflict[OF assms, of post] insert_ordered_clean[OF assms(1)]
  by (simp add: insert_many_def)

text \<open>
  Claim C5, as amended. \<open>sync_nodes\<close> and \<open>sync_edges\<close> call \<open>insert_many\<close> with the
  batch alone, so the insert is ordered: when a record of the batch conflicts with a stored
  row, the records before it are inserted, the conflicting record and every record after
  it are not, and the conflict is raised as a \<open>BulkWriteError\<close> naming that record. In
  the example, nodes 7 and 9 conflict with nothing and are left out because node 3, before
  them in the batch, is already stored.
\<close>


theorem sync_inserts_ordered:
  assumes "sr_mode g \<noteq> ''r''"
  shows "(map node_record (node g) = pre @ d # post \<and>
          insert_ordered (get_collection w (sr_db_name g) ''nodes'') pre = (c, []) \<and>
          duplicate_key c d \<longrightarrow>
            sync_nodes g w =
              (Inl (BulkWriteError [d]),
               issue (InsertMany (sr_db_name g) ''nodes'' (pre @ d # post) True)
                 (put_collection (sr_db_name g) ''nodes''
                    ((get_collection w (sr_db_name g) ''nodes'')
                       \<lparr>docs := docs (get_collection w (sr_db_name g) ''nodes'') @ pre\<rparr>) w))) \<and>
         (edge_records g r (edges g) [] = Inr (pre' @ d' # post') \<and>
          insert_ordered (get_collection w (sr_db_name g) ''edges'') pre' = (c', []) \<and>
          duplicate_key c' d' \<longrightarrow>
            sync_edges g r w =
              (Inl (BulkWriteError [d']),
               issue (InsertMany (sr_db_name g) ''edges'' (pre' @ d' # post') True)
                 (put_collection (sr_db_name g) ''edges''
                    ((get_collection w (sr_db_name g) ''edges'')
                       \<lparr>docs := docs (get_collection w (sr_db_name g) ''edges'') @ pre'\<rparr>) w)))"
proof -
  have "sync_nodes g w = insert_many (sr_db_name g) ''nodes'' (pre @ d # post) True w"
    if "map node_record (node g) = pre @ d # post"
    using that assms by (simp add: sync_nodes_def node_records_map)
  moreover have "sync_edges g r w = insert_many (sr_db_name g) ''edges'' (pre' @ d' # post') True w"
    if "edge_records g r (edges g) [] = Inr (pre' @ d' # post')"
    using that assms by (simp add: sync_edges_def)
  ultimately show ?thesis
    by (auto simp: insert_many_conflict)
qed

theorem sync_inserts_ordered_witness:
  "sr_mode resync_graph \<noteq> ''r'' \<and>
   map node_record (node resync_graph) =
     [[''id'' \<mapsto> 4, ''center_z'' \<mapsto> 2, ''center_y'' \<mapsto> 2, ''center_x'' \<mapsto> 2]] @
     [''id'' \<mapsto> 3, ''center_z'' \<mapsto> 1, ''center_y'' \<mapsto> 1, ''center_x'' \<mapsto> 1] #
     [[''id'' \<mapsto> 7], [''id'' \<mapsto> 9]] \<and>
   duplicate_key (get_collection seeded_world ''rag'' ''nodes'')
     [''id'' \<mapsto> 3, ''center_z'' \<mapsto> 1, ''center_y'' \<mapsto> 1, ''center_x'' \<mapsto> 1] \<and>
   fst (sync_nodes resync_graph seeded_world) =
     Inl (BulkWriteError [[''id'' \<mapsto> 3, ''center_z'' \<mapsto> 1, ''center_y'' \<mapsto> 1, ''center_x'' \<mapsto> 1]]) \<and>
   docs (get_collection (snd (sync_nodes resync_graph seeded_world)) ''rag'' ''nodes'') =
     [[''id'' \<mapsto> 3, ''center_z'' \<mapsto> 1, ''center_y'' \<mapsto> 1, ''center_x'' \<mapsto> 1],
      [''id'' \<mapsto> 4, ''center_z'' \<mapsto> 2, ''center_y'' \<mapsto> 2, ''center_x'' \<mapsto> 2]] \<and>
   edge_records resync_graph lower_block (edges resync_graph) [] =
     Inr ([[''u'' \<mapsto> 3, ''v'' \<mapsto> 4]] @ [''u'' \<mapsto> 3, ''v'' \<mapsto> 7] # [[''u'' \<mapsto> 3, ''v'' \<mapsto> 9]]) \<and>
   duplicate_key (get_collection seeded_world ''rag'' ''edges'') [''u'' \<mapsto> 3, ''v'' \<mapsto> 7] \<and>
   fst (sync_edges resync_graph lower_block seeded_world) =
     Inl (BulkWriteError [[''u'' \<mapsto> 3, ''v'' \<mapsto> 7]]) \<and>
   docs (get_collection (snd (sync_edges resync_graph lower_block seeded_world)) ''rag'' ''edges'') =
     [[''u'' \<mapsto> 3, ''v'' \<mapsto> 7], [''u'' \<mapsto> 3, ''v'' \<mapsto> 4]]"
  using sync_inserts_ordered[of resync_graph
      "[[''id'' \<mapsto> 4, ''center_z'' \<mapsto> 2, ''center_y'' \<mapsto> 2, ''center_x'' \<mapsto> 2]]"
      "[''id'' \<mapsto> 3, ''center_z'' \<mapsto> 1, ''center_y'' \<mapsto> 1, ''center_x'' \<mapsto> 1]"
      "[[''id'' \<mapsto> 7], [''id'' \<mapsto> 9]]"
      seeded_world
      "(get_collection seeded_world ''rag'' ''nodes'')\<lparr>docs :=
          docs (get_collection seeded_world ''rag'' ''nodes'') @
          [[''id'' \<mapsto> 4, ''center_z'' \<mapsto> 2, ''center_y'' \<mapsto> 2, ''center_x'' \<mapsto> 2]]\<rparr>"
      lower_block
      "[[''u'' \<mapsto> 3, ''v'' \<mapsto> 4]]" "[''u'' \<mapsto> 3, ''v'' \<mapsto> 7]" "[[''u'' \<mapsto> 3, ''v'' \<mapsto> 9]]"
      "(get_collection seeded_world ''rag'' ''edges'')\<lparr>docs :=
          docs (get_collection seeded_world ''rag'' ''edges'') @ [[''u'' \<mapsto> 3, ''v'' \<mapsto> 4]]\<rparr>"]
  by (simp add: resync_graph_def seeded_world_def lower_block_def node_record_def
      get_collection_def put_collection_def issue_def duplicate_key_def key_of_def
      contains_def roi_contains_def get_begin_def get_end_def)

theorem ordered_insert_counterexample:
  "calls (snd (sync_nodes resync_graph seeded_world)) =
     [InsertMany ''rag'' ''nodes'' (map node_record (node resync_graph)) True] \<and>
   duplicate_key (get_collection seeded_world ''rag'' ''nodes'') (node_record (7, Map.empty)) = False \<and>
   duplicate_key (get_collection seeded_world ''rag'' ''nodes'') (node_record (9, Map.empty)) = False \<and>
   map (\<lambda>d. d ''id'') (docs (get_collection seeded_world ''rag'' ''nodes'')) = [Some 3] \<and>
   map (\<lambda>d. d ''id'') (map node_record (node resync_graph)) = [Some 4, Some 3, Some 7, Some 9] \<and>
   map (\<lambda>d. d ''id'') (docs (get_collection (snd (sync_nodes resync_graph seeded_world)) ''rag'' ''nodes''))
     = [Some 3, Some 4]"
  by (simp add: resync_graph_def seeded_world_def node_record_def sync_nodes_def insert_many_def Let_def
      get_collection_def put_collection_def issue_def duplicate_key_def key_of_def)

section \<open>Opening the provider\<close>

lemma setup_db_fresh:
  "dbs w dbn = None \<Longrightarrow> dbs (setup_db dbn w) = (dbs w)(dbn \<mapsto> fresh_schema)"
  by (simp add: setup_db_def create_index_def get_collection_def put_collection_def issue_def
      empty_collection_def fresh_schema_def Let_def)

lemma setup_db_calls: "calls (setup_db dbn w) = calls w @ schema_calls dbn"
  by (simp add: setup_db_def create_index_def put_collection_def issue_def schema_calls_def Let_def)

lemma issued_append: "calls w' = calls w @ cs \<Longrightarrow> issued w w' = cs"
  by (simp add: issued_def)

lemma provider_init_calls:
  "calls (snd (provider_init dbn m w)) =
     calls w @ [Connect] @ (if m = ''w'' then [DropDatabase dbn] else []) @ [ListDatabaseNames] @
     (if m = ''w'' \<or> \<not> database_listed w dbn then schema_calls dbn else []) @ [Close]"
  by (simp add: provider_init_def Let_def database_listed_def issue_def drop_database_def
      setup_db_calls)

lemma provider_init_dbs:
  "dbs (snd (provider_init dbn m w)) =
     (if m = ''w'' \<or> \<not> database_listed w dbn then (dbs w)(dbn \<mapsto> fresh_schema) else dbs w)"
  by (auto simp: provider_init_def Let_def database_listed_def issue_def drop_database_def
      setup_db_fresh)

text \<open>
  Claim C3, as amended. Opening the provider in a mode other than reset, on a database
  that exists, changes nothing in the store and issues no call but the listing of the
  database names: no schema is created. Read-write mode \<open>'r+'\<close> on a database that does
  not exist creates the schema. Reset mode \<open>'w'\<close> drops the database and then creates
  the schema on the fresh one. No mode but reset issues a drop. The constructor tests the
  mode for the drop only: \<open>__setup_db\<close> runs whenever the database is not listed.
\<close>


theorem provider_init_effects:
  "(m \<noteq> ''w'' \<and> database_listed w dbn \<longrightarrow>
      dbs (snd (provider_init dbn m w)) = dbs w \<and>
      issued w (snd (provider_init dbn m w)) = [Connect, ListDatabaseNames, Close]) \<and>
   (m = ''r+'' \<and> \<not> database_listed w dbn \<longrightarrow>
      dbs (snd (provider_init dbn m w)) = (dbs w)(dbn \<mapsto> fresh_schema) \<and>
      issued w (snd (provider_init dbn m w)) =
        [Connect, ListDatabaseNames] @ schema_calls dbn @ [Close]) \<and>
   (m = ''w'' \<longrightarrow>
      dbs (snd (provider_init dbn m w)) = (dbs w)(dbn \<mapsto> fresh_schema) \<and>
      issued w (snd (provider_init dbn m w)) =
        [Connect, DropDatabase dbn, ListDatabaseNames] @ schema_calls dbn @ [Close]) \<and>
   (m \<noteq> ''w'' \<longrightarrow> \<not> list_ex is_drop (issued w (snd (provider_init dbn m w))))"
proof -
  have "issued w (snd (provider_init dbn m w)) =
     [Connect] @ (if m = ''w'' then [DropDatabase dbn] else []) @ [ListDatabaseNames] @
     (if m = ''w'' \<or> \<not> database_listed w dbn then schema_calls dbn else []) @ [Close]"
    by (rule issued_append) (rule provider_init_calls)
  then show ?thesis
    by (cases "m = ''w''"; cases "database_listed w dbn")
      (auto simp: provider_init_dbs schema_calls_def)
qed

theorem provider_init_effects_witness:
  "database_listed seeded_world ''rag'' \<and>
   dbs (snd (provider_init ''rag'' ''r'' seeded_world)) = dbs seeded_world \<and>
   issued seeded_world (snd (provider_init ''rag'' ''r'' seeded_world)) = [Connect, ListDatabaseNames, Close] \<and>
   \<not> database_listed empty_world ''rag'' \<and>
   dbs (snd (provider_init ''rag'' ''r+'' empty_world)) = [''rag'' \<mapsto> fresh_schema] \<and>
   dbs (snd (provider_init ''rag'' ''w'' seeded_world)) = [''rag'' \<mapsto> fresh_schema] \<and>
   \<not> list_ex is_drop (issued seeded_world (snd (provider_init ''rag'' ''r+'' seeded_world)))"
  using provider_init_effects[of "''r''" seeded_world "''rag''"]
    provider_init_effects[of "''r+''" empty_world "''rag''"]
    provider_init_effects[of "''w''" seeded_world "''rag''"]
    provider_init_effects[of "''r+''" seeded_world "''rag''"]
  by (simp add: database_listed_def seeded_world_def empty_world_def)

theorem read_only_open_counterexample:
  "database_listed empty_world ''rag'' = False \<and>
   dbs (snd (provider_init ''rag'' ''r'' empty_world)) ''rag'' = Some fresh_schema \<and>
   dbs (snd (provider_init ''rag'' ''w'' empty_world)) ''rag'' = Some fresh_schema \<and>
   calls (snd (provider_init ''rag'' ''r'' empty_world)) =
     [Connect, ListDatabaseNames,
      CreateIndex ''rag'' ''nodes''
        \<lparr>idx_name = ''position'', idx_keys = [''center_z'', ''center_y'', ''center_x''],
         idx_unique = False\<rparr>,
      CreateIndex ''rag'' ''nodes'' \<lparr>idx_name = ''id'', idx_keys = [''id''], idx_unique = True\<rparr>,
      CreateIndex ''rag'' ''edges''
        \<lparr>idx_name = ''incident'', idx_keys = [''u'', ''v''], idx_unique = True\<rparr>,
      Close]"
  by (simp add: provider_init_def Let_def database_listed_def empty_world_def issue_def
      drop_database_def setup_db_def create_index_def get_collection_def put_collection_def
      empty_collection_def fresh_schema_def)

section \<open>Extraction\<close>

lemma matches_range:
  "matches d [(''center_z'', Range bz ez), (''center_y'', Range by ey), (''center_x'', Range bx ex)]
     = position_in [(bz, ez), (by, ey), (bx, ex)] d"
  by (auto simp: matches_def position_in_def center_def in_region_def split: option.splits)

lemma dbs_issue [simp]: "dbs (issue c w) = dbs w"
  by (simp add: issue_def)

lemma get_collection_issue [simp]: "get_collection (issue c w) dbn cn = get_collection w dbn cn"
  by (simp add: get_collection_def issue_def)

lemma read_nodes_3d:
  assumes "dims r = 3"
  shows "fst (read_nodes dbn r w) = Inr (nodes_in w dbn r) \<and>
         dbs (snd (read_nodes dbn r w)) = dbs w \<and>
         issued w (snd (read_nodes dbn r w)) =
           [Find dbn ''nodes''
              [(''center_z'', Range (fst (r ! 0)) (snd (r ! 0))),
               (''center_y'', Range (fst (r ! 1)) (snd (r ! 1))),
               (''center_x'', Range (fst (r ! 2)) (snd (r ! 2)))]]"
proof -
  obtain bz ez "by" ey bx ex where r: "r = [(bz, ez), (by, ey), (bx, ex)]"
    using dims3[OF assms] by blast
  show ?thesis
    by (simp add: r read_nodes_def get_begin_def get_end_def find_docs_def matches_range
        nodes_in_def persisted_nodes_def issue_def issued_def)
qed

lemma collect_map:
  "list_all (\<lambda>x. f x = Inr (h x)) xs \<Longrightarrow> collect f xs = Inr (map h xs)"
  by (induction xs) auto

lemma node_entry_ok: "d ''id'' \<noteq> None \<Longrightarrow> node_entry d = Inr (node_of_doc d)"
  by (auto simp: node_entry_def node_of_doc_def)

lemma edge_entry_ok: "e ''u'' \<noteq> None \<Longrightarrow> e ''v'' \<noteq> None \<Longrightarrow> edge_entry e = Inr (edge_of_doc e)"
  by (auto simp: edge_entry_def edge_of_doc_def)

lemma read_lists_ok:
  assumes "dims r = 3" and "store_ok w dbn"
  shows "fst (read_lists dbn r w) =
           Inr (map node_of_doc (nodes_in w dbn r),
                map edge_of_doc (edges_from w dbn (returned_ids w dbn r))) \<and>
         dbs (snd (read_lists dbn r w)) = dbs w"
proof -
  obtain w1 where rn: "read_nodes dbn r w = (Inr (nodes_in w dbn r), w1)" and w1: "dbs w1 = dbs w"
    using read_nodes_3d[OF assms(1), of dbn w] by (cases "read_nodes dbn r w") auto
  have same: "get_collection w1 dbn cn = get_collection w dbn cn" for cn
    by (simp add: get_collection_def w1)
  from assms(2) have "list_all (\<lambda>d. node_entry d = Inr (node_of_doc d)) (nodes_in w dbn r)"
    by (auto simp: store_ok_def nodes_in_def list_all_iff node_entry_ok)
  then have nl: "collect node_entry (nodes_in w dbn r) = Inr (map node_of_doc (nodes_in w dbn r))"
    by (rule collect_map)
  have ids: "map (fst \<circ> node_of_doc) (nodes_in w dbn r) = returned_ids w dbn r"
    by (simp add: returned_ids_def node_of_doc_def)
  have found: "find_docs dbn ''edges'' [(''u'', In (returned_ids w dbn r))] w1 =
      (edges_from w dbn (returned_ids w dbn r), issue (Find dbn ''edges'' [(''u'', In (returned_ids w dbn r))]) w1)"
  proof -
    have "matches e [(''u'', In ids)] = (case e ''u'' of None \<Rightarrow> False | Some u \<Rightarrow> u \<in> set ids)" for e ids
      by (simp add: matches_def split: option.splits)
    then show ?thesis
      by (simp add: find_docs_def edges_from_def persisted_edges_def same)
  qed
  from assms(2) have "list_all (\<lambda>e. edge_entry e = Inr (edge_of_doc e)) (edges_from w dbn (returned_ids w dbn r))"
    by (auto simp: store_ok_def edges_from_def list_all_iff edge_entry_ok)
  then have el: "collect edge_entry (edges_from w dbn (returned_ids w dbn r)) =
      Inr (map edge_of_doc (edges_from w dbn (returned_ids w dbn r)))"
    by (rule collect_map)
  show ?thesis
    by (simp add: read_lists_def rn nl ids found el Let_def w1)
qed

lemma getitem_ok:
  assumes "dims r = 3" and "store_ok w (db_name p)"
  shows "fst (getitem p r w) =
           Inr (assemble p (nodes_in w (db_name p) r)
                  (edges_from w (db_name p) (returned_ids w (db_name p) r))) \<and>
         dbs (snd (getitem p r w)) = dbs w"
proof -
  have ok: "store_ok (issue Connect w) (db_name p)"
    using assms(2) by (simp add: store_ok_def persisted_nodes_def persisted_edges_def)
  have same: "nodes_in (issue Connect w) dbn r = nodes_in w dbn r"
    "returned_ids (issue Connect w) dbn r = returned_ids w dbn r"
    "edges_from (issue Connect w) dbn ids = edges_from w dbn ids" for dbn ids
    by (simp_all add: nodes_in_def returned_ids_def edges_from_def persisted_nodes_def persisted_edges_def)
  from read_lists_ok[OF assms(1) ok] show ?thesis
    by (cases "read_lists (db_name p) r (issue Connect w)")
      (auto simp: getitem_def assms(1) same MongoDbSubRag_def assemble_def)
qed

subsection \<open>The graph container\<close>

lemma add_nodes_from_edges [simp]: "edges (add_nodes_from nl g) = edges g"
  by (induction nl arbitrary: g) auto

lemma update_member:
  "(i, a) \<in> set (AList.update k v al) \<Longrightarrow> (i, a) = (k, v) \<or> (i, a) \<in> set al"
  by (induction al) (auto split: if_splits)

lemma add_nodes_from_keys:
  "fst ` set (node (add_nodes_from nl g)) = fst ` set (node g) \<union> fst ` set nl"
proof (induction nl arbitrary: g)
  case Nil
  then show ?case by simp
next
  case (Cons x nl)
  obtain n dd where x: "x = (n, dd)" by (cases x)
  show ?case
  proof (cases "map_of (node g) n")
    case None
    then show ?thesis by (auto simp: x Cons.IH)
  next
    case (Some old)
    then have "n \<in> fst ` set (node g)"
      by (metis map_of_eq_None_iff option.distinct(1))
    then have "fst ` set (AList.update n (old ++ dd) (node g)) = fst ` set (node g)"
      by (auto simp: dom_update)
    with Some \<open>n \<in> fst ` set (node g)\<close> show ?thesis
      by (simp add: x Cons.IH) blast
  qed
qed

lemma add_nodes_from_invariant:
  assumes "\<And>a b. Q a \<Longrightarrow> Q b \<Longrightarrow> Q (a ++ b)"
    and "\<forall>(i, a) \<in> set nl. Q a"
    and "\<forall>(i, a) \<in> set (node g). Q a"
  shows "\<forall>(i, a) \<in> set (node (add_nodes_from nl g)). Q a"
  using assms(2,3)
proof (induction nl arbitrary: g)
  case Nil
  then show ?case by simp
next
  case (Cons x nl)
  obtain n dd where x: "x = (n, dd)" by (cases x)
  from Cons.prems(1) have dd: "Q dd" and rest: "\<forall>(i, a) \<in> set nl. Q a"
    by (auto simp: x)
  show ?case
  proof (cases "map_of (node g) n")
    case None
    have "\<forall>(i, a) \<in> set (node (g\<lparr>node := node g @ [(n, dd)]\<rparr>)). Q a"
      using Cons.prems(2) dd by auto
    from Cons.IH[OF rest this] show ?thesis by (simp add: x None)
  next
    case (Some old)
    then have "(n, old) \<in> set (node g)" by (rule map_of_SomeD)
    with Cons.prems(2) have "Q old" by auto
    with dd have "Q (old ++ dd)" by (simp add: assms(1))
    with Cons.prems(2)
    have "\<forall>(i, a) \<in> set (node (g\<lparr>node := AList.update n (old ++ dd) (node g)\<rparr>)). Q a"
      by (auto dest: update_member)
    from Cons.IH[OF rest this] show ?thesis by (simp add: x Some)
  qed
qed

lemma add_nodes_from_distinct:
  "distinct (map fst (node g)) \<Longrightarrow> distinct (map fst (node (add_nodes_from nl g)))"
proof (induction nl arbitrary: g)
  case Nil
  then show ?case by simp
next
  case (Cons x nl)
  obtain n dd where x: "x = (n, dd)" by (cases x)
  show ?case
  proof (cases "map_of (node g) n")
    case None
    then have "n \<notin> fst ` set (node g)" by (simp add: map_of_eq_None_iff)
    with Cons.prems have "distinct (map fst (node (g\<lparr>node := node g @ [(n, dd)]\<rparr>)))"
      by simp
    from Cons.IH[OF this] show ?thesis by (simp add: x None)
  next
    case (Some old)
    from Cons.prems have "distinct (map fst (node (g\<lparr>node := AList.update n (old ++ dd) (node g)\<rparr>)))"
      by (simp add: distinct_update)
    from Cons.IH[OF this] show ?thesis by (simp add: x Some)
  qed
qed

lemma add_nodes_from_fresh:
  "distinct (map fst (node g @ nl)) \<Longrightarrow> node (add_nodes_from nl g) = node g @ nl"
proof (induction nl arbitrary: g)
  case Nil
  then show ?case by simp
next
  case (Cons x nl)
  obtain n dd where x: "x = (n, dd)" by (cases x)
  from Cons.prems have "n \<notin> fst ` set (node g)" by (auto simp: x)
  then have none: "map_of (node g) n = None" by (simp add: map_of_eq_None_iff)
  from Cons.prems have "distinct (map fst (node (g\<lparr>node := node g @ [(n, dd)]\<rparr>) @ nl))"
    by (auto simp: x)
  from Cons.IH[OF this] show ?case by (simp add: x none)
qed

lemma ensure_node_cases:
  "ensure_node n ns = ns \<and> n \<in> fst ` set ns \<or>
   ensure_node n ns = ns @ [(n, Map.empty)] \<and> n \<notin> fst ` set ns"
proof (cases "map_of ns n")
  case None
  then have "n \<notin> fst ` set ns" by (simp add: map_of_eq_None_iff)
  with None show ?thesis by (simp add: ensure_node_def)
next
  case (Some a)
  then have "(n, a) \<in> set ns" by (rule map_of_SomeD)
  then have "n \<in> fst ` set ns" by force
  with Some show ?thesis by (simp add: ensure_node_def)
qed

lemma add_edge_nodes:
  "\<exists>st. node (add_edge u v dd g) = node g @ st \<and> (\<forall>(i, a) \<in> set st. a = Map.empty) \<and>
        fst ` set st = {u, v} - fst ` set (node g) \<and> distinct (map fst st)"
proof -
  let ?n1 = "ensure_node u (node g)"
  consider (a) "?n1 = node g" "u \<in> fst ` set (node g)"
    | (b) "?n1 = node g @ [(u, Map.empty)]" "u \<notin> fst ` set (node g)"
    using ensure_node_cases[of u "node g"] by blast
  then show ?thesis
  proof cases
    case a
    consider (c) "ensure_node v ?n1 = ?n1" "v \<in> fst ` set ?n1"
      | (d) "ensure_node v ?n1 = ?n1 @ [(v, Map.empty)]" "v \<notin> fst ` set ?n1"
      using ensure_node_cases[of v ?n1] by blast
    then show ?thesis
    proof cases
      case c
      with a show ?thesis by (auto simp: add_edge_def)
    next
      case d
      with a show ?thesis by (auto simp: add_edge_def)
    qed
  next
    case b
    consider (c) "ensure_node v ?n1 = ?n1" "v \<in> fst ` set ?n1"
      | (d) "ensure_node v ?n1 = ?n1 @ [(v, Map.empty)]" "v \<notin> fst ` set ?n1"
      using ensure_node_cases[of v ?n1] by blast
    then show ?thesis
    proof cases
      case c
      with b show ?thesis by (auto simp: add_edge_def)
    next
      case d
      with b show ?thesis by (auto simp: add_edge_def)
    qed
  qed
qed

lemma add_edges_from_nodes:
  "\<exists>st. node (add_edges_from el g) = node g @ st \<and> (\<forall>(i, a) \<in> set st. a = Map.empty) \<and>
        fst ` set st = endpoints el - fst ` set (node g) \<and> distinct (map fst st)"
proof (induction el arbitrary: g)
  case Nil
  then show ?case by (simp add: endpoints_def)
next
  case (Cons x el)
  obtain u v dd where x: "x = (u, v, dd)" by (cases x; auto)
  obtain st1 where st1: "node (add_edge u v dd g) = node g @ st1" "\<forall>(i, a) \<in> set st1. a = Map.empty"
    "fst ` set st1 = {u, v} - fst ` set (node g)" "distinct (map fst st1)"
    using add_edge_nodes[of u v dd g] by blast
  obtain st2 where st2: "node (add_edges_from el (add_edge u v dd g)) = node (add_edge u v dd g) @ st2"
    "\<forall>(i, a) \<in> set st2. a = Map.empty"
    "fst ` set st2 = endpoints el - fst ` set (node (add_edge u v dd g))" "distinct (map fst st2)"
    using Cons.IH[of "add_edge u v dd g"] by blast
  have "node (add_edges_from (x # el) g) = node g @ (st1 @ st2)"
    by (simp add: x st1(1) st2(1))
  moreover have "\<forall>(i, a) \<in> set (st1 @ st2). a = Map.empty"
    using st1(2) st2(2) by auto
  moreover have "fst ` set (st1 @ st2) = endpoints (x # el) - fst ` set (node g)"
    using st1(3) st2(3) by (auto simp: x st1(1) endpoints_def image_Un)
  moreover have "distinct (map fst (st1 @ st2))"
    using st1(3,4) st2(3,4) by (auto simp: st1(1) image_Un)
  ultimately show ?case by blast
qed

lemma put_edge_joins:
  "list_ex (\<lambda>(x, y, d). (x = a \<and> y = b) \<or> (x = b \<and> y = a)) (put_edge u v dd es) =
     (list_ex (\<lambda>(x, y, d). (x = a \<and> y = b) \<or> (x = b \<and> y = a)) es \<or>
      (a = u \<and> b = v) \<or> (a = v \<and> b = u))"
proof (induction es)
  case Nil
  then show ?case by auto
next
  case (Cons e es)
  obtain a' b' old where e: "e = (a', b', old)" by (cases e; auto)
  show ?case
  proof (cases "(a' = u \<and> b' = v) \<or> (a' = v \<and> b' = u)")
    case True
    then have "put_edge u v dd (e # es) = (a', b', old ++ dd) # es" by (simp add: e)
    with True show ?thesis by (simp add: e) blast
  next
    case False
    then have "put_edge u v dd (e # es) = (a', b', old) # put_edge u v dd es" by (auto simp: e)
    then show ?thesis by (auto simp: e Cons.IH)
  qed
qed

lemma add_edge_has_edge:
  "has_edge (add_edge u v dd g) a b = (has_edge g a b \<or> (a = u \<and> b = v) \<or> (a = v \<and> b = u))"
  by (simp add: has_edge_def add_edge_def put_edge_joins)

lemma add_edges_from_has_edge:
  "has_edge (add_edges_from el g) a b =
     (has_edge g a b \<or> (\<exists>d. (a, b, d) \<in> set el \<or> (b, a, d) \<in> set el))"
proof (induction el arbitrary: g)
  case Nil
  then show ?case by simp
next
  case (Cons x el)
  obtain u v dd where x: "x = (u, v, dd)" by (cases x; auto)
  show ?case
    by (auto simp: x Cons.IH add_edge_has_edge)
qed

lemma put_edge_fresh:
  "canonical_key (u, v, dd) \<notin> canonical_key ` set es \<Longrightarrow> put_edge u v dd es = es @ [(u, v, dd)]"
proof (induction es)
  case Nil
  then show ?case by simp
next
  case (Cons e es)
  obtain a b old where e: "e = (a, b, old)" by (cases e; auto)
  from Cons.prems have "canonical_key (u, v, dd) \<noteq> canonical_key (a, b, old)"
    and rest: "canonical_key (u, v, dd) \<notin> canonical_key ` set es"
    by (auto simp: e)
  then have "\<not> ((a = u \<and> b = v) \<or> (a = v \<and> b = u))"
    by (auto simp: canonical_key_def min.commute max.commute)
  with Cons.IH[OF rest] show ?case by (simp add: e)
qed

lemma add_edges_from_fresh:
  "distinct (map canonical_key (edges g @ el)) \<Longrightarrow> edges (add_edges_from el g) = edges g @ el"
proof (induction el arbitrary: g)
  case Nil
  then show ?case by simp
next
  case (Cons x el)
  obtain u v dd where x: "x = (u, v, dd)" by (cases x; auto)
  from Cons.prems have "canonical_key (u, v, dd) \<notin> canonical_key ` set (edges g)"
    by (auto simp: x)
  then have step: "edges (add_edge u v dd g) = edges g @ [(u, v, dd)]"
    by (simp add: add_edge_def put_edge_fresh)
  with Cons.prems have "distinct (map canonical_key (edges (add_edge u v dd g) @ el))"
    by (auto simp: x)
  from Cons.IH[OF this] step show ?case by (simp add: x)
qed

lemma position_in_node_of_doc: "position_in r (snd (node_of_doc d)) = position_in r d"
  by (simp add: position_in_def center_def node_of_doc_def split: option.splits)

lemma position_in_update: "position_in r a \<Longrightarrow> position_in r b \<Longrightarrow> position_in r (a ++ b)"
  by (auto simp: position_in_def center_def map_add_def split: option.splits)

lemma position_in_center_z: "position_in r a \<Longrightarrow> a ''center_z'' \<noteq> None"
  by (auto simp: position_in_def center_def split: option.splits)

text \<open>The graph that extraction assembles from the nodes \<open>ns\<close> and the edges \<open>es\<close>.\<close>

lemma assemble_nodes:
  assumes "list_all (position_in r) ns"
  shows "\<exists>full st. node (assemble p ns es) = full @ st \<and>
           fst ` set full = fst ` set (map node_of_doc ns) \<and>
           (\<forall>(i, a) \<in> set full. position_in r a) \<and>
           (\<forall>(i, a) \<in> set st. a = Map.empty) \<and>
           fst ` set st = endpoints (map edge_of_doc es) - fst ` set full \<and>
           (distinct (map fst (map node_of_doc ns)) \<longrightarrow> full = map node_of_doc ns)"
proof -
  let ?g0 = "\<lparr>sr_db_name = db_name p, sr_mode = mode p, node = [], edges = []\<rparr>"
  let ?g1 = "add_nodes_from (map node_of_doc ns) ?g0"
  obtain st where st: "node (assemble p ns es) = node ?g1 @ st" "\<forall>(i, a) \<in> set st. a = Map.empty"
    "fst ` set st = endpoints (map edge_of_doc es) - fst ` set (node ?g1)"
    using add_edges_from_nodes[of "map edge_of_doc es" ?g1] by (auto simp: assemble_def)
  have keys: "fst ` set (node ?g1) = fst ` set (map node_of_doc ns)"
    by (simp add: add_nodes_from_keys)
  have "\<forall>(i, a) \<in> set (map node_of_doc ns). position_in r a"
    using assms by (auto simp: list_all_iff position_in_def center_def node_of_doc_def split: option.splits)
  then have inv: "\<forall>(i, a) \<in> set (node ?g1). position_in r a"
    by (intro add_nodes_from_invariant) (auto intro: position_in_update)
  have "node ?g1 = map node_of_doc ns" if "distinct (map fst (map node_of_doc ns))"
    using add_nodes_from_fresh[of ?g0 "map node_of_doc ns"] that by simp
  with st keys inv show ?thesis by blast
qed


text \<open>
  Claim C7. For a 3D region, on a store whose node records have an id and whose edge
  records have both endpoints, the range query of \<open>__read_nodes\<close> returns exactly the
  persisted nodes whose position lies in the region, half-open on each axis, and
  \<open>__getitem__\<close> returns a graph without changing the store. Every persisted node inside
  the region is a node of the graph, with a position inside the region; every node of the
  graph that has position fields lies inside the region and has the id of a returned node;
  and when the returned ids are distinct, the nodes with position fields are exactly the
  returned records, each under its id with its other fields as attributes. The remaining
  nodes of the graph are the Stubs of claim C6, which have no position.
\<close>


theorem extract_range:
  assumes "dims r = 3" and "store_ok w (db_name p)"
  shows "fst (read_nodes (db_name p) r w) = Inr (nodes_in w (db_name p) r) \<and>
         (\<exists>g. fst (getitem p r w) = Inr g \<and> dbs (snd (getitem p r w)) = dbs w \<and>
            (\<forall>d \<in> set (persisted_nodes w (db_name p)).
               position_in r d \<longrightarrow> (\<exists>a. (the (d ''id''), a) \<in> set (node g) \<and> position_in r a)) \<and>
            (\<forall>(i, a) \<in> set (node g).
               a ''center_z'' \<noteq> None \<longrightarrow>
                 position_in r a \<and> i \<in> set (returned_ids w (db_name p) r)) \<and>
            (distinct (returned_ids w (db_name p) r) \<longrightarrow>
               filter (\<lambda>(i, a). a ''center_z'' \<noteq> None) (node g) =
                 map node_of_doc (nodes_in w (db_name p) r)))"
proof -
  let ?ns = "nodes_in w (db_name p) r"
  let ?es = "edges_from w (db_name p) (returned_ids w (db_name p) r)"
  let ?g = "assemble p ?ns ?es"
  have ids: "map fst (map node_of_doc ?ns) = returned_ids w (db_name p) r"
    by (simp add: returned_ids_def node_of_doc_def)
  have la: "list_all (position_in r) ?ns"
    by (simp add: nodes_in_def list_all_iff)
  obtain full st where shape: "node ?g = full @ st"
    "fst ` set full = fst ` set (map node_of_doc ?ns)"
    "\<forall>(i, a) \<in> set full. position_in r a"
    "\<forall>(i, a) \<in> set st. a = Map.empty"
    "distinct (map fst (map node_of_doc ?ns)) \<longrightarrow> full = map node_of_doc ?ns"
    using assemble_nodes[OF la, of p ?es] by (elim exE conjE) (rule that; assumption)
  have keys: "fst ` set full = set (returned_ids w (db_name p) r)"
    unfolding shape(2) by (simp add: returned_ids_def node_of_doc_def image_image)
  have inside: "\<exists>a. (the (d ''id''), a) \<in> set (node ?g) \<and> position_in r a"
    if "d \<in> set (persisted_nodes w (db_name p))" and "position_in r d" for d
  proof -
    from that have "d \<in> set ?ns" by (simp add: nodes_in_def)
    then have "the (d ''id'') \<in> set (returned_ids w (db_name p) r)"
      by (simp add: returned_ids_def)
    then have "the (d ''id'') \<in> fst ` set full" by (simp only: keys)
    then obtain x where x: "x \<in> set full" "the (d ''id'') = fst x" by (rule imageE)
    then have mem: "(the (d ''id''), snd x) \<in> set full" by simp
    with shape(3) have "position_in r (snd x)" by blast
    moreover from mem have "(the (d ''id''), snd x) \<in> set (node ?g)" by (simp add: shape(1))
    ultimately show ?thesis by blast
  qed
  have outside: "position_in r a \<and> i \<in> set (returned_ids w (db_name p) r)"
    if "(i, a) \<in> set (node ?g)" and "a ''center_z'' \<noteq> None" for i a
  proof -
    have "(i, a) \<notin> set st"
    proof
      assume "(i, a) \<in> set st"
      with shape(4) have "a = Map.empty" by blast
      with that(2) show False by simp
    qed
    with that(1) have mem: "(i, a) \<in> set full" by (simp add: shape(1))
    with shape(3) have "position_in r a" by blast
    moreover from mem have "i \<in> fst ` set full" by (rule image_eqI[rotated]) simp
    ultimately show ?thesis by (simp only: keys simp_thms)
  qed
  have exact: "filter (\<lambda>(i, a). a ''center_z'' \<noteq> None) (node ?g) = map node_of_doc ?ns"
    if "distinct (returned_ids w (db_name p) r)"
  proof -
    from that ids have "distinct (map fst (map node_of_doc ?ns))" by (simp only:)
    with shape(5) have full: "full = map node_of_doc ?ns" by blast
    have "\<forall>x \<in> set full. (\<lambda>(i, a). a ''center_z'' \<noteq> None) x"
      using shape(3) position_in_center_z by blast
    then have "filter (\<lambda>(i, a). a ''center_z'' \<noteq> None) full = full"
      by (simp only: filter_id_conv)
    moreover have "\<forall>x \<in> set st. \<not> (\<lambda>(i, a). a ''center_z'' \<noteq> None) x"
      using shape(4) by auto
    then have "filter (\<lambda>(i, a). a ''center_z'' \<noteq> None) st = []"
      by (simp only: filter_empty_conv)
    ultimately show ?thesis by (simp add: shape(1) full)
  qed
  have A: "fst (read_nodes (db_name p) r w) = Inr ?ns"
    using read_nodes_3d[OF assms(1), of "db_name p" w] by blast
  have B: "fst (getitem p r w) = Inr ?g" and B': "dbs (snd (getitem p r w)) = dbs w"
    using getitem_ok[OF assms] by blast+
  have C: "\<forall>d \<in> set (persisted_nodes w (db_name p)).
             position_in r d \<longrightarrow> (\<exists>a. (the (d ''id''), a) \<in> set (node ?g) \<and> position_in r a)"
    using inside by blast
  have D: "\<forall>(i, a) \<in> set (node ?g).
             a ''center_z'' \<noteq> None \<longrightarrow>
               position_in r a \<and> i \<in> set (returned_ids w (db_name p) r)"
    using outside by blast
  have E: "distinct (returned_ids w (db_name p) r) \<longrightarrow>
             filter (\<lambda>(i, a). a ''center_z'' \<noteq> None) (node ?g) = map node_of_doc ?ns"
    using exact by blast
  have "\<exists>g. fst (getitem p r w) = Inr g \<and> dbs (snd (getitem p r w)) = dbs w \<and>
            (\<forall>d \<in> set (persisted_nodes w (db_name p)).
               position_in r d \<longrightarrow> (\<exists>a. (the (d ''id''), a) \<in> set (node g) \<and> position_in r a)) \<and>
            (\<forall>(i, a) \<in> set (node g).
               a ''center_z'' \<noteq> None \<longrightarrow>
                 position_in r a \<and> i \<in> set (returned_ids w (db_name p) r)) \<and>
            (distinct (returned_ids w (db_name p) r) \<longrightarrow>
               filter (\<lambda>(i, a). a ''center_z'' \<noteq> None) (node g) =
                 map node_of_doc (nodes_in w (db_name p) r))"
    by (rule exI[of _ ?g], rule conjI[OF B], rule conjI[OF B'], rule conjI[OF C],
        rule conjI[OF D], rule E)
  with A show ?thesis by (rule conjI)
qed


lemma scenario_ok:
  "dims lower_block = 3" "store_ok scenario_world (db_name scenario_provider)"
  by (simp_all add: dims_def lower_block_def scenario_world_def scenario_provider_def store_ok_def
      persisted_nodes_def persisted_edges_def get_collection_def)

lemma scenario_nodes:
  "map (\<lambda>d. (d ''id'', center d, position_in lower_block d)) (persisted_nodes scenario_world ''rag'')
     = [(Some 3, Some (1, 1, 1), True), (Some 7, Some (7, 7, 7), False)]"
  "returned_ids scenario_world ''rag'' lower_block = [3]"
  by (simp_all add: lower_block_def scenario_world_def persisted_nodes_def get_collection_def
      center_def position_in_def in_region_def returned_ids_def nodes_in_def)

lemma scenario_found:
  "nodes_in scenario_world ''rag'' lower_block =
     [[''id'' \<mapsto> 3, ''center_z'' \<mapsto> 1, ''center_y'' \<mapsto> 1, ''center_x'' \<mapsto> 1]]"
  "edges_from scenario_world ''rag'' [3] = [[''u'' \<mapsto> 3, ''v'' \<mapsto> 7, ''score'' \<mapsto> 9]]"
  by (simp_all add: lower_block_def scenario_world_def persisted_nodes_def persisted_edges_def
      get_collection_def center_def position_in_def in_region_def nodes_in_def edges_from_def)

lemma scenario_assembled:
  "assemble scenario_provider
     [[''id'' \<mapsto> 3, ''center_z'' \<mapsto> 1, ''center_y'' \<mapsto> 1, ''center_x'' \<mapsto> 1]]
     [[''u'' \<mapsto> 3, ''v'' \<mapsto> 7, ''score'' \<mapsto> 9]] =
   \<lparr>sr_db_name = ''rag'', sr_mode = ''r'',
    node = [node_of_doc [''id'' \<mapsto> 3, ''center_z'' \<mapsto> 1, ''center_y'' \<mapsto> 1, ''center_x'' \<mapsto> 1],
            (7, Map.empty)],
    edges = [edge_of_doc [''u'' \<mapsto> 3, ''v'' \<mapsto> 7, ''score'' \<mapsto> 9]]\<rparr>"
  by (simp add: assemble_def scenario_provider_def add_edge_def ensure_node_def node_of_doc_def
      edge_of_doc_def)

lemma scenario_graph:
  "fst (getitem scenario_provider lower_block scenario_world) =
   Inr \<lparr>sr_db_name = ''rag'', sr_mode = ''r'',
    node = [node_of_doc [''id'' \<mapsto> 3, ''center_z'' \<mapsto> 1, ''center_y'' \<mapsto> 1, ''center_x'' \<mapsto> 1],
            (7, Map.empty)],
    edges = [edge_of_doc [''u'' \<mapsto> 3, ''v'' \<mapsto> 7, ''score'' \<mapsto> 9]]\<rparr>"
proof -
  have "db_name scenario_provider = ''rag''" by (simp add: scenario_provider_def)
  with getitem_ok[OF scenario_ok] show ?thesis
    by (simp add: scenario_nodes(2) scenario_found scenario_assembled)
qed

theorem extract_range_witness:
  "dims lower_block = 3 \<and> store_ok scenario_world (db_name scenario_provider) \<and>
   map (\<lambda>d. (d ''id'', center d, position_in lower_block d)) (persisted_nodes scenario_world ''rag'')
     = [(Some 3, Some (1, 1, 1), True), (Some 7, Some (7, 7, 7), False)] \<and>
   fst (read_nodes ''rag'' lower_block scenario_world) =
     Inr [[''id'' \<mapsto> 3, ''center_z'' \<mapsto> 1, ''center_y'' \<mapsto> 1, ''center_x'' \<mapsto> 1]] \<and>
   map_sum id (\<lambda>g. map (\<lambda>(i, a). (i, center a)) (node g))
       (fst (getitem scenario_provider lower_block scenario_world))
     = Inr [(3, Some (1, 1, 1)), (7, None)] \<and>
   distinct (returned_ids scenario_world ''rag'' lower_block)"
proof -
  have rn: "fst (read_nodes ''rag'' lower_block scenario_world) =
     Inr [[''id'' \<mapsto> 3, ''center_z'' \<mapsto> 1, ''center_y'' \<mapsto> 1, ''center_x'' \<mapsto> 1]]"
    using extract_range[OF scenario_ok, THEN conjunct1]
    by (simp add: scenario_provider_def scenario_found)
  have g: "map_sum id (\<lambda>g. map (\<lambda>(i, a). (i, center a)) (node g))
       (fst (getitem scenario_provider lower_block scenario_world))
     = Inr [(3, Some (1, 1, 1)), (7, None)]"
    by (simp add: scenario_graph node_of_doc_def center_def)
  from scenario_ok scenario_nodes rn g show ?thesis by simp
qed

text \<open>
  Claim C6. For a 3D region, on such a store, the graph \<open>__getitem__\<close> returns joins
  \<open>u\<close> and \<open>v\<close> for every persisted edge whose \<open>u\<close> is the id of a node returned by
  the range query, wherever \<open>v\<close> lies; and when \<open>v\<close> is not the id of a returned node,
  the graph looks \<open>v\<close> up to the empty dictionary: a Stub, with no position and no
  attribute. When the matched edges have distinct canonical keys, the edges of the graph
  are exactly the matched records, each with its fields other than \<open>u\<close> and \<open>v\<close> as
  attributes.
\<close>


theorem extract_edges:
  assumes "dims r = 3" and "store_ok w (db_name p)"
  shows "\<exists>g. fst (getitem p r w) = Inr g \<and>
           (\<forall>e \<in> set (persisted_edges w (db_name p)). \<forall>u v.
              e ''u'' = Some u \<and> e ''v'' = Some v \<and> u \<in> set (returned_ids w (db_name p) r) \<longrightarrow>
                has_edge g u v \<and>
                (v \<notin> set (returned_ids w (db_name p) r) \<longrightarrow> map_of (node g) v = Some Map.empty)) \<and>
           (distinct (map canonical_key
                (map edge_of_doc (edges_from w (db_name p) (returned_ids w (db_name p) r)))) \<longrightarrow>
              edges g = map edge_of_doc (edges_from w (db_name p) (returned_ids w (db_name p) r)))"
proof -
  let ?ids = "returned_ids w (db_name p) r"
  let ?ns = "nodes_in w (db_name p) r"
  let ?es = "edges_from w (db_name p) ?ids"
  let ?g = "assemble p ?ns ?es"
  have la: "list_all (position_in r) ?ns"
    by (simp add: nodes_in_def list_all_iff)
  obtain full st where shape: "node ?g = full @ st"
    "fst ` set full = fst ` set (map node_of_doc ?ns)"
    "\<forall>(i, a) \<in> set st. a = Map.empty"
    "fst ` set st = endpoints (map edge_of_doc ?es) - fst ` set full"
    using assemble_nodes[OF la, of p ?es] by (elim exE conjE) (rule that; assumption)
  have keys: "fst ` set full = set ?ids"
    unfolding shape(2) by (simp add: returned_ids_def node_of_doc_def image_image)
  have joined: "has_edge ?g u v \<and> (v \<notin> set ?ids \<longrightarrow> map_of (node ?g) v = Some Map.empty)"
    if e: "e \<in> set (persisted_edges w (db_name p))"
      and uv: "e ''u'' = Some u \<and> e ''v'' = Some v \<and> u \<in> set ?ids" for e u v
  proof -
    from e uv have "e \<in> set ?es" by (simp add: edges_from_def)
    moreover from uv have "edge_of_doc e = (u, v, e(''u'' := None, ''v'' := None))"
      by (simp add: edge_of_doc_def)
    ultimately have mem: "(u, v, e(''u'' := None, ''v'' := None)) \<in> set (map edge_of_doc ?es)"
      by (metis image_eqI set_map)
    then have "has_edge ?g u v"
      unfolding assemble_def add_edges_from_has_edge by blast
    moreover have "map_of (node ?g) v = Some Map.empty" if out: "v \<notin> set ?ids"
    proof -
      from mem have "(fst \<circ> snd) (u, v, e(''u'' := None, ''v'' := None))
          \<in> (fst \<circ> snd) ` set (map edge_of_doc ?es)"
        by (rule imageI)
      then have "v \<in> endpoints (map edge_of_doc ?es)"
        by (simp add: endpoints_def)
      with out keys shape(4) have "v \<in> fst ` set st" by simp
      then obtain a where a: "map_of st v = Some a"
        by (metis map_of_eq_None_iff not_Some_eq)
      then have "(v, a) \<in> set st" by (rule map_of_SomeD)
      with shape(3) have "a = Map.empty" by blast
      moreover from out keys have "map_of full v = None"
        by (simp add: map_of_eq_None_iff)
      ultimately show ?thesis
        using a by (simp add: shape(1) map_add_def)
    qed
    ultimately show ?thesis by blast
  qed
  have exact: "edges ?g = map edge_of_doc ?es"
    if "distinct (map canonical_key (map edge_of_doc ?es))"
    using that add_edges_from_fresh[of "add_nodes_from (map node_of_doc ?ns)
        \<lparr>sr_db_name = db_name p, sr_mode = mode p, node = [], edges = []\<rparr>" "map edge_of_doc ?es"]
    by (simp add: assemble_def)
  have B: "fst (getitem p r w) = Inr ?g"
    using getitem_ok[OF assms] by blast
  have C: "\<forall>e \<in> set (persisted_edges w (db_name p)). \<forall>u v.
              e ''u'' = Some u \<and> e ''v'' = Some v \<and> u \<in> set ?ids \<longrightarrow>
                has_edge ?g u v \<and> (v \<notin> set ?ids \<longrightarrow> map_of (node ?g) v = Some Map.empty)"
    using joined by blast
  have D: "distinct (map canonical_key (map edge_of_doc ?es)) \<longrightarrow> edges ?g = map edge_of_doc ?es"
    using exact by blast
  show ?thesis
    by (rule exI[of _ ?g], rule conjI[OF B], rule conjI[OF C], rule D)
qed

theorem extract_edges_witness:
  "dims lower_block = 3 \<and> store_ok scenario_world (db_name scenario_provider) \<and>
   map record_key (persisted_edges scenario_world ''rag'') = [(Some 3, Some 7), (Some 7, Some 8)] \<and>
   returned_ids scenario_world ''rag'' lower_block = [3] \<and>
   (\<exists>g. fst (getitem scenario_provider lower_block scenario_world) = Inr g) \<and>
   map_sum id
     (\<lambda>g. (map (\<lambda>(a, b, d). (a, b, d ''score'')) (edges g), has_edge g 3 7,
           map_of (node g) 7 = Some Map.empty))
     (fst (getitem scenario_provider lower_block scenario_world))
     = Inr ([(3, 7, Some 9)], True, True)"
proof -
  from extract_edges[OF scenario_ok]
  have ex: "\<exists>g. fst (getitem scenario_provider lower_block scenario_world) = Inr g"
    by (elim exE conjE) (rule exI)
  have keys: "map record_key (persisted_edges scenario_world ''rag'') = [(Some 3, Some 7), (Some 7, Some 8)]"
    by (simp add: record_key_def persisted_edges_def scenario_world_def get_collection_def)
  have g: "map_sum id
     (\<lambda>g. (map (\<lambda>(a, b, d). (a, b, d ''score'')) (edges g), has_edge g 3 7,
           map_of (node g) 7 = Some Map.empty))
     (fst (getitem scenario_provider lower_block scenario_world))
     = Inr ([(3, 7, Some 9)], True, True)"
    by (simp add: scenario_graph node_of_doc_def edge_of_doc_def has_edge_def)
  from scenario_ok scenario_nodes(2) ex keys g show ?thesis by (intro conjI)
qed


end
